theory Spec2Isabelle
  imports
    Main
    "HOL-Library.Multiset"
    "HOL-Library.AList"
    "HOL-Library.Char_ord"
    "HOL-Library.List_Lexorder"
begin

section \<open>Python values, exceptions and dictionaries\<close>

text \<open>
  The embedding follows \<^verbatim>\<open>bakker/checkpoint.py\<close>. Python strings and byte strings are
  both modelled as \<^typ>\<open>string\<close> (lists of 8-bit characters); \<open>sorted\<close> on strings is the
  lexicographic order of the character codes, which is the order that
  \<^theory_text>\<open>Char_ord\<close> and \<^theory_text>\<open>List_Lexorder\<close> give to \<^typ>\<open>string\<close>.

  The attributes of a node are dynamically typed: \<open>from_dict\<close> stores whatever the decoded
  JSON document holds. \<open>pyval\<close> is the universe of such values. Python's \<open>bool\<close> is a
  subclass of \<open>int\<close> with \<open>True == 1\<close>, so JSON booleans are the integers 1 and 0 here;
  floating point numbers are left out of the universe.
\<close>

type_synonym bytes = string

datatype pyval =
    PNone
  | PInt int
  | PStr string
  | PList "pyval list"
  | PDict "(string \<times> pyval) list"

text \<open>
  Exceptions. \<open>TypeError msg\<close> is the exception the program raises itself, with its
  message; \<open>BuiltinTypeError\<close> is a \<open>TypeError\<close> raised by the interpreter (subscripting
  or iterating a value that does not support it, an unhashable dictionary key, adding a
  non-string to a string), whose message depends on the interpreter version.
  \<open>PermissionError\<close> is the \<open>OSError\<close> of a system call that the kernel refuses for lack
  of permission, and \<open>UnicodeEncodeError\<close> is raised when a string that cannot be encoded
  as UTF-8 is hashed.
\<close>

datatype error =
    AssertionError
  | AttributeError
  | IndexError
  | KeyError string
  | TypeError string
  | BuiltinTypeError
  | ValueError
  | PermissionError
  | UnicodeEncodeError

text \<open>
  A Python \<open>dict\<close> keeps its keys in insertion order; storing under a key that is already
  present replaces the value and leaves the key where it is. This is an association list
  with \<^const>\<open>AList.update\<close>.
\<close>

definition dict_setitem :: "'k \<Rightarrow> 'v \<Rightarrow> ('k \<times> 'v) list \<Rightarrow> ('k \<times> 'v) list" where
  "dict_setitem k v d = AList.update k v d"

text \<open>\<open>d[k]\<close> for a decoded JSON value \<open>d\<close>.\<close>

fun getitem :: "pyval \<Rightarrow> string \<Rightarrow> error + pyval" where
  "getitem (PDict kvs) k = (case map_of kvs k of None \<Rightarrow> Inl (KeyError k) | Some v \<Rightarrow> Inr v)"
| "getitem _ k = Inl BuiltinTypeError"

text \<open>Only \<open>None\<close>, numbers and strings can be dictionary keys.\<close>

fun hashable :: "pyval \<Rightarrow> bool" where
  "hashable (PList _) = False"
| "hashable (PDict _) = False"
| "hashable _ = True"

text \<open>\<open>a + b\<close> where \<open>a\<close> is a string literal: \<open>b\<close> has to be a string too.\<close>

fun str_add :: "string \<Rightarrow> pyval \<Rightarrow> error + string" where
  "str_add a (PStr b) = Inr (a @ b)"
| "str_add a _ = Inl BuiltinTypeError"

section \<open>The file system, as the builder observes it\<close>

text \<open>
  A file system entry carries what \<open>os.lstat\<close>, \<open>os.readlink\<close>, \<open>os.listdir\<close>,
  \<open>open(...).read\<close> and the tests of \<open>os.path\<close> return for its path. A directory lists its
  entries in the order \<open>os.listdir\<close> reports them. \<open>os.path.isfile\<close> and \<open>os.path.isdir\<close>
  follow symbolic links, so a link records what it resolves to for the process: a regular
  file, a directory, or neither (a dangling link, a loop, a link to a device, a target the
  process cannot reach). \<open>Special\<close> stands for every path that is neither a link, a
  regular file nor a directory.

  The kernel decides the access of a process to a file or a directory by the class the
  process falls in for that entry (the superuser; the owner of the entry; a member of its
  group; anybody else) and by the permission bits of that class in the mode of the entry.
  A regular file and a directory record this class next to their mode. Reading a file
  and listing a directory need the read bit; looking at an entry of a directory, which is
  what \<open>os.stat\<close> does, needs the search bit of the directory. The superuser is granted
  both whatever the mode. A link is read with \<open>os.readlink\<close> whatever its own mode.
  The path handed to the builder is taken to be reachable.
\<close>

datatype accessor = Superuser | Owner | Group | Other

definition may_read :: "accessor \<Rightarrow> nat \<Rightarrow> bool" where
  "may_read who mode =
     (case who of
        Superuser \<Rightarrow> True
      | Owner \<Rightarrow> (mode div 256) mod 2 = 1
      | Group \<Rightarrow> (mode div 32) mod 2 = 1
      | Other \<Rightarrow> (mode div 4) mod 2 = 1)"

definition may_search :: "accessor \<Rightarrow> nat \<Rightarrow> bool" where
  "may_search who mode =
     (case who of
        Superuser \<Rightarrow> True
      | Owner \<Rightarrow> (mode div 64) mod 2 = 1
      | Group \<Rightarrow> (mode div 8) mod 2 = 1
      | Other \<Rightarrow> mode mod 2 = 1)"

datatype link_target = ToFile | ToDirectory | ToNothing

datatype fs_entry =
    RegularFile accessor nat bytes
  | Symlink nat bytes link_target
  | Directory accessor nat "(string \<times> fs_entry) list"
  | Special nat

fun islink :: "fs_entry \<Rightarrow> bool" where
  "islink (Symlink _ _ _) = True"
| "islink _ = False"

fun isfile :: "fs_entry \<Rightarrow> bool" where
  "isfile (RegularFile _ _ _) = True"
| "isfile (Symlink _ _ ToFile) = True"
| "isfile _ = False"

fun isdir :: "fs_entry \<Rightarrow> bool" where
  "isdir (Directory _ _ _) = True"
| "isdir (Symlink _ _ ToDirectory) = True"
| "isdir _ = False"

fun st_mode :: "fs_entry \<Rightarrow> nat" where
  "st_mode (RegularFile _ m _) = m"
| "st_mode (Symlink m _ _) = m"
| "st_mode (Directory _ m _) = m"
| "st_mode (Special m) = m"

text \<open>
  \<open>os.path.isfile\<close> and \<open>os.path.isdir\<close> of a child of a directory ask \<open>os.stat\<close> and are
  \<open>False\<close> when it fails; \<open>search\<close> says whether the process may search the directory.
\<close>

definition child_isfile :: "bool \<Rightarrow> fs_entry \<Rightarrow> bool" where
  "child_isfile search child \<longleftrightarrow> search \<and> isfile child"

definition child_isdir :: "bool \<Rightarrow> fs_entry \<Rightarrow> bool" where
  "child_isdir search child \<longleftrightarrow> search \<and> isdir child"

text \<open>
  The target of a link is stored as bytes. \<open>os.readlink\<close> decodes them with the file
  system encoding, taken to be UTF-8, and maps every byte that is not part of a
  well-formed UTF-8 sequence to a lone surrogate; hashing the string encodes it as UTF-8
  again, which gives the stored bytes back when all of them are well formed and fails on
  a surrogate. The well-formed sequences are those of the Unicode standard: no overlong
  forms, no surrogates, nothing above U+10FFFF. Names of directory entries are taken to
  be printable text.
\<close>

definition sequence_length :: "nat \<Rightarrow> nat" where
  "sequence_length b = (if b < 128 then 1 else if b < 224 then 2 else if b < 240 then 3 else 4)"

fun well_formed_sequence :: "nat list \<Rightarrow> bool" where
  "well_formed_sequence [a] \<longleftrightarrow> a < 128"
| "well_formed_sequence [a, b] \<longleftrightarrow> 194 \<le> a \<and> a \<le> 223 \<and> 128 \<le> b \<and> b \<le> 191"
| "well_formed_sequence [a, b, c] \<longleftrightarrow>
     (a = 224 \<and> 160 \<le> b \<and> b \<le> 191 \<or> 225 \<le> a \<and> a \<le> 236 \<and> 128 \<le> b \<and> b \<le> 191
        \<or> a = 237 \<and> 128 \<le> b \<and> b \<le> 159 \<or> 238 \<le> a \<and> a \<le> 239 \<and> 128 \<le> b \<and> b \<le> 191)
     \<and> 128 \<le> c \<and> c \<le> 191"
| "well_formed_sequence [a, b, c, d] \<longleftrightarrow>
     (a = 240 \<and> 144 \<le> b \<and> b \<le> 191 \<or> 241 \<le> a \<and> a \<le> 243 \<and> 128 \<le> b \<and> b \<le> 191
        \<or> a = 244 \<and> 128 \<le> b \<and> b \<le> 143)
     \<and> 128 \<le> c \<and> c \<le> 191 \<and> 128 \<le> d \<and> d \<le> 191"
| "well_formed_sequence _ \<longleftrightarrow> False"

fun valid_utf8 :: "bytes \<Rightarrow> bool" where
  "valid_utf8 [] \<longleftrightarrow> True"
| "valid_utf8 (b # bs) \<longleftrightarrow>
     (let n = sequence_length (of_char b)
      in well_formed_sequence (map of_char (b # take (n - 1) bs)) \<and> valid_utf8 (drop (n - 1) bs))"

text \<open>\<open>stat.S_IMODE(mode)\<close> is \<open>mode & 0o7777\<close>, the low twelve bits.\<close>

definition S_IMODE :: "nat \<Rightarrow> nat" where
  "S_IMODE mode = mode mod 4096"

text \<open>\<open>os.path.join(a, b)\<close> of \<open>posixpath\<close>.\<close>

definition os_path_join :: "string \<Rightarrow> string \<Rightarrow> string" where
  "os_path_join a b =
     (if b \<noteq> [] \<and> hd b = CHR ''/'' then b
      else if a = [] \<or> last a = CHR ''/'' then a @ b
      else a @ ''/'' @ b)"

section \<open>Hashing\<close>

text \<open>
  \<open>xxhash.xxh64()\<close> is a streaming hash: the digest after a sequence of \<open>update\<close> calls is
  the digest of the concatenation of their arguments. The hash state is the bytes fed so
  far, and the digest function of the library is a parameter \<open>H\<close> of everything that
  hashes.
\<close>

definition xxh64_new :: bytes where
  "xxh64_new = []"

definition xxh64_update :: "bytes \<Rightarrow> bytes \<Rightarrow> bytes" where
  "xxh64_update message b = message @ b"

definition hexdigest :: "(bytes \<Rightarrow> string) \<Rightarrow> bytes \<Rightarrow> string" where
  "hexdigest H message = H message"

text \<open>\<open>message.update(v)\<close> for a dynamically typed \<open>v\<close>: only strings can be hashed.\<close>

fun xxh64_update_val :: "bytes \<Rightarrow> pyval \<Rightarrow> error + bytes" where
  "xxh64_update_val message (PStr s) = Inr (xxh64_update message s)"
| "xxh64_update_val message _ = Inl BuiltinTypeError"

section \<open>Tree nodes\<close>

text \<open>
  The three subclasses of \<open>TreeNode\<close>; the arguments are \<open>name\<close>, \<open>checksum\<close>,
  \<open>permissions\<close> and, for a directory, the \<open>children\<close> dictionary in insertion order.
\<close>

datatype tree_node =
    FileNode pyval pyval pyval
  | SymlinkNode pyval pyval pyval
  | DirectoryNode pyval pyval pyval "(pyval \<times> tree_node) list"

fun node_name :: "tree_node \<Rightarrow> pyval" where
  "node_name (FileNode n c p) = n"
| "node_name (SymlinkNode n c p) = n"
| "node_name (DirectoryNode n c p ch) = n"

fun node_checksum :: "tree_node \<Rightarrow> pyval" where
  "node_checksum (FileNode n c p) = c"
| "node_checksum (SymlinkNode n c p) = c"
| "node_checksum (DirectoryNode n c p ch) = c"

fun node_permissions :: "tree_node \<Rightarrow> pyval" where
  "node_permissions (FileNode n c p) = p"
| "node_permissions (SymlinkNode n c p) = p"
| "node_permissions (DirectoryNode n c p ch) = p"

fun node_children :: "tree_node \<Rightarrow> (pyval \<times> tree_node) list" where
  "node_children (DirectoryNode n c p ch) = ch"
| "node_children _ = []"

subsection \<open>Building nodes from the file system\<close>

definition BLOCKSIZE :: nat where
  "BLOCKSIZE = 65536"

text \<open>
  The read loop of \<open>FileNode.build_node\<close>. The open file is the bytes not read yet;
  \<open>f.read(BLOCKSIZE)\<close> returns the next \<open>BLOCKSIZE\<close> of them (fewer at the end, none after
  it).
\<close>

function read_loop :: "bytes \<Rightarrow> bytes \<Rightarrow> bytes \<Rightarrow> bytes" where
  "read_loop message file_buffer f =
     (if length file_buffer > 0
      then read_loop (xxh64_update message file_buffer) (take BLOCKSIZE f) (drop BLOCKSIZE f)
      else message)"
  by pat_completeness auto
termination
  by (relation "measure (\<lambda>(message, file_buffer, f). length file_buffer + length f)")
     (auto simp: min_def)

text \<open>
  \<open>FileNode.build_node\<close> and \<open>SymlinkNode.build_node\<close>. \<open>open(path, 'rb')\<close> raises when the
  process may not read the file.
\<close>

fun FileNode_build_node ::
  "(bytes \<Rightarrow> string) \<Rightarrow> fs_entry \<Rightarrow> string \<Rightarrow> error + tree_node" where
  "FileNode_build_node H (RegularFile who mode content) name =
     (let permissions = S_IMODE mode in
      if \<not> may_read who mode then Inl PermissionError
      else
        (let message = read_loop xxh64_new (take BLOCKSIZE content) (drop BLOCKSIZE content);
             checksum = hexdigest H message
         in Inr (FileNode (PStr name) (PStr checksum) (PInt (int permissions)))))"
| "FileNode_build_node H _ name = Inl AssertionError"

fun SymlinkNode_build_node ::
  "(bytes \<Rightarrow> string) \<Rightarrow> fs_entry \<Rightarrow> string \<Rightarrow> error + tree_node" where
  "SymlinkNode_build_node H (Symlink mode target resolves) name =
     (let permissions = S_IMODE mode in
      if \<not> valid_utf8 target then Inl UnicodeEncodeError
      else
        (let message = xxh64_update xxh64_new target;
             checksum = hexdigest H message
         in Inr (SymlinkNode (PStr name) (PStr checksum) (PInt (int permissions)))))"
| "SymlinkNode_build_node H _ name = Inl AssertionError"

text \<open>
  Lines 72 to 76 of \<open>DirectoryNode.build_node\<close>: the checksums of the children, looked up
  under the sorted keys, are fed to a fresh hash one after the other. A child that is
  \<open>None\<close> has no attribute \<open>checksum\<close>.
\<close>

fun child_checksums ::
  "(string \<times> tree_node option) list \<Rightarrow> string list \<Rightarrow> error + pyval list" where
  "child_checksums children [] = Inr []"
| "child_checksums children (child_name # names) =
     (case map_of children child_name of
        None \<Rightarrow> Inl (KeyError child_name)
      | Some None \<Rightarrow> Inl AttributeError
      | Some (Some child) \<Rightarrow>
          (case child_checksums children names of
             Inl e \<Rightarrow> Inl e
           | Inr cs \<Rightarrow> Inr (node_checksum child # cs)))"

fun update_all :: "bytes \<Rightarrow> pyval list \<Rightarrow> error + bytes" where
  "update_all message [] = Inr message"
| "update_all message (child_digest # ds) =
     (case xxh64_update_val message child_digest of
        Inl e \<Rightarrow> Inl e
      | Inr message' \<Rightarrow> update_all message' ds)"

definition directory_checksum ::
  "(bytes \<Rightarrow> string) \<Rightarrow> (string \<times> tree_node option) list \<Rightarrow> error + string" where
  "directory_checksum H children =
     (case child_checksums children (sort (map fst children)) of
        Inl e \<Rightarrow> Inl e
      | Inr cs \<Rightarrow>
          (case update_all xxh64_new cs of
             Inl e \<Rightarrow> Inl e
           | Inr message \<Rightarrow> Inr (hexdigest H message)))"

text \<open>
  The dictionary handed to the \<open>DirectoryNode\<close> constructor. Once the checksum has been
  computed no value of \<open>children\<close> is \<open>None\<close>.
\<close>

fun children_items :: "(string \<times> tree_node option) list \<Rightarrow> (pyval \<times> tree_node) list" where
  "children_items [] = []"
| "children_items ((k, Some child) # kvs) = (PStr k, child) # children_items kvs"
| "children_items ((k, None) # kvs) = children_items kvs"

text \<open>
  A function that prints returns the lines it printed, in order, next to its result.
  \<open>TreeNode.build_node\<close> returns \<open>None\<close> after printing when the entry is neither a link,
  a file nor a directory. \<open>DirectoryNode.build_node\<close> is reached through
  \<open>TreeNode.build_node\<close> only, on a path that is a directory and not a link; it takes the
  accessor class, the mode and the listing of that directory, for which its assertion
  holds (in the dispatch, an entry that is not a link and is a directory is a
  \<open>Directory\<close>, so the last case of that branch cannot occur). \<open>os.listdir\<close> raises when
  the process may not read the directory. \<open>build_children\<close> is the \<open>for\<close> loop of
  \<open>DirectoryNode.build_node\<close> over \<open>os.listdir(path)\<close>, with the dictionary \<open>children\<close>
  built so far; \<open>search\<close> says whether the process may search the directory.
\<close>

fun TreeNode_build_node ::
    "(bytes \<Rightarrow> string) \<Rightarrow> string \<Rightarrow> fs_entry \<Rightarrow> string
       \<Rightarrow> string list \<times> (error + tree_node option)"
  and DirectoryNode_build_node ::
    "(bytes \<Rightarrow> string) \<Rightarrow> string \<Rightarrow> accessor \<Rightarrow> nat \<Rightarrow> (string \<times> fs_entry) list \<Rightarrow> string
       \<Rightarrow> string list \<times> (error + tree_node)"
  and build_children ::
    "(bytes \<Rightarrow> string) \<Rightarrow> string \<Rightarrow> bool \<Rightarrow> (string \<times> fs_entry) list
       \<Rightarrow> (string \<times> tree_node option) list
       \<Rightarrow> string list \<times> (error + (string \<times> tree_node option) list)"
where
  "TreeNode_build_node H path e name =
     (if islink e then
        (case SymlinkNode_build_node H e name of
           Inl err \<Rightarrow> ([], Inl err)
         | Inr node \<Rightarrow> ([], Inr (Some node)))
      else if isfile e then
        (case FileNode_build_node H e name of
           Inl err \<Rightarrow> ([], Inl err)
         | Inr node \<Rightarrow> ([], Inr (Some node)))
      else if isdir e then
        (case e of
           Directory who mode listing \<Rightarrow>
             (case DirectoryNode_build_node H path who mode listing name of
                (out, Inl err) \<Rightarrow> (out, Inl err)
              | (out, Inr node) \<Rightarrow> (out, Inr (Some node)))
         | _ \<Rightarrow> ([], Inl AssertionError))
      else ([''Could not backup: '' @ path], Inr None))"
| "DirectoryNode_build_node H path who mode listing name =
     (let permissions = S_IMODE mode in
      if \<not> may_read who mode then ([], Inl PermissionError)
      else
        (case build_children H path (may_search who mode) listing [] of
           (out, Inl err) \<Rightarrow> (out, Inl err)
         | (out, Inr children) \<Rightarrow>
             (case directory_checksum H children of
                Inl err \<Rightarrow> (out, Inl err)
              | Inr checksum \<Rightarrow>
                  (out, Inr (DirectoryNode (PStr name) (PStr checksum) (PInt (int permissions))
                               (children_items children))))))"
| "build_children H path search [] children = ([], Inr children)"
| "build_children H path search ((child_name, child) # listing) children =
     (let child_path = os_path_join path child_name in
      if \<not> child_isfile search child \<and> \<not> child_isdir search child then
        (case build_children H path search listing children of
           (out, r) \<Rightarrow> ((''Ignored: '' @ child_path) # out, r))
      else
        (case TreeNode_build_node H child_path child child_name of
           (out, Inl err) \<Rightarrow> (out, Inl err)
         | (out, Inr node) \<Rightarrow>
             (case build_children H path search listing
                     (dict_setitem child_name node children) of
                (out', r) \<Rightarrow> (out @ out', r))))"

subsection \<open>Serialization\<close>

fun to_dict :: "tree_node \<Rightarrow> pyval" where
  "to_dict (DirectoryNode name checksum permissions children) =
     PDict [(''name'', name),
            (''checksum'', checksum),
            (''permissions'', permissions),
            (''children'', PList (map (\<lambda>kv. to_dict (snd kv)) children)),
            (''type'', PStr ''directory'')]"
| "to_dict (FileNode name checksum permissions) =
     PDict [(''name'', name),
            (''checksum'', checksum),
            (''permissions'', permissions),
            (''type'', PStr ''file'')]"
| "to_dict (SymlinkNode name checksum permissions) =
     PDict [(''name'', name),
            (''checksum'', checksum),
            (''permissions'', permissions),
            (''type'', PStr ''symlink'')]"

definition FileNode_from_dict :: "pyval \<Rightarrow> error + tree_node" where
  "FileNode_from_dict d =
     (case getitem d ''name'' of Inl e \<Rightarrow> Inl e | Inr name \<Rightarrow>
      case getitem d ''checksum'' of Inl e \<Rightarrow> Inl e | Inr checksum \<Rightarrow>
      case getitem d ''permissions'' of Inl e \<Rightarrow> Inl e | Inr permissions \<Rightarrow>
        Inr (FileNode name checksum permissions))"

definition SymlinkNode_from_dict :: "pyval \<Rightarrow> error + tree_node" where
  "SymlinkNode_from_dict d =
     (case getitem d ''name'' of Inl e \<Rightarrow> Inl e | Inr name \<Rightarrow>
      case getitem d ''checksum'' of Inl e \<Rightarrow> Inl e | Inr checksum \<Rightarrow>
      case getitem d ''permissions'' of Inl e \<Rightarrow> Inl e | Inr permissions \<Rightarrow>
        Inr (SymlinkNode name checksum permissions))"

lemma getitem_size: "getitem d k = Inr v \<Longrightarrow> size v < size d"
proof (cases d)
  case (PDict kvs)
  assume "getitem d k = Inr v"
  with PDict have "map_of kvs k = Some v"
    by (simp split: option.splits)
  then have "(k, v) \<in> set kvs"
    by (rule map_of_SomeD)
  then have "size v < Suc (size_list (size_prod (\<lambda>_. 0) size) kvs)"
    by (induction kvs) auto
  with PDict show ?thesis by simp
qed simp_all

text \<open>
  \<open>TreeNode.from_dict\<close> and \<open>DirectoryNode.from_dict\<close>. The arguments of the constructor
  call are evaluated from left to right, the dictionary comprehension last.
  \<open>children_from_dicts\<close> is the comprehension
  \<open>{child['name']: TreeNode.from_dict(child) for child in d['children']}\<close> over a list: for
  every element the key is evaluated, then the value, and then the pair is stored, which
  needs a hashable key. When \<open>d['children']\<close> is not a list, iterating it raises for
  \<open>None\<close> and for a number, and yields strings for a string (its characters) and for a
  dictionary (its keys), on the first of which \<open>child['name']\<close> raises; only the empty
  string and the empty dictionary give a directory without children.
\<close>

function TreeNode_from_dict :: "pyval \<Rightarrow> error + tree_node"
  and DirectoryNode_from_dict :: "pyval \<Rightarrow> error + tree_node"
  and children_from_dicts ::
    "pyval list \<Rightarrow> (pyval \<times> tree_node) list \<Rightarrow> error + (pyval \<times> tree_node) list"
where
  "TreeNode_from_dict d =
     (case getitem d ''type'' of Inl e \<Rightarrow> Inl e | Inr t \<Rightarrow>
        if t = PStr ''directory'' then DirectoryNode_from_dict d
        else if t = PStr ''file'' then FileNode_from_dict d
        else if t = PStr ''symlink'' then SymlinkNode_from_dict d
        else
          (case getitem d ''name'' of Inl e \<Rightarrow> Inl e | Inr name \<Rightarrow>
           case str_add ''Type '' name of Inl e \<Rightarrow> Inl e | Inr msg \<Rightarrow>
             Inl (TypeError (msg @ '' does not exist.''))))"
| "DirectoryNode_from_dict d =
     (case getitem d ''name'' of Inl e \<Rightarrow> Inl e | Inr name \<Rightarrow>
      case getitem d ''checksum'' of Inl e \<Rightarrow> Inl e | Inr checksum \<Rightarrow>
      case getitem d ''permissions'' of Inl e \<Rightarrow> Inl e | Inr permissions \<Rightarrow>
      case getitem d ''children'' of Inl e \<Rightarrow> Inl e | Inr cs \<Rightarrow>
        (case cs of
           PList children \<Rightarrow>
             (case children_from_dicts children [] of
                Inl e \<Rightarrow> Inl e
              | Inr ch \<Rightarrow> Inr (DirectoryNode name checksum permissions ch))
         | PStr s \<Rightarrow>
             if s = [] then Inr (DirectoryNode name checksum permissions [])
             else Inl BuiltinTypeError
         | PDict kvs \<Rightarrow>
             if kvs = [] then Inr (DirectoryNode name checksum permissions [])
             else Inl BuiltinTypeError
         | _ \<Rightarrow> Inl BuiltinTypeError))"
| "children_from_dicts [] acc = Inr acc"
| "children_from_dicts (child # children) acc =
     (case getitem child ''name'' of Inl e \<Rightarrow> Inl e | Inr k \<Rightarrow>
      case TreeNode_from_dict child of Inl e \<Rightarrow> Inl e | Inr v \<Rightarrow>
        if \<not> hashable k then Inl BuiltinTypeError
        else children_from_dicts children (dict_setitem k v acc))"
  by pat_completeness auto
termination
proof (relation "measure (\<lambda>x. case x of
          Inl d \<Rightarrow> 2 * size d + 1
        | Inr (Inl d) \<Rightarrow> 2 * size d
        | Inr (Inr (cs, acc)) \<Rightarrow> 2 * size_list size cs)", goal_cases)
  case (3 d name checksum permissions cs children)
  from getitem_size [OF 3(4)] 3(5) show ?case by simp
qed simp_all

section \<open>Time stamps\<close>

text \<open>A naive \<open>datetime\<close> (no time zone), as \<open>datetime.now()\<close> returns it.\<close>

record datetime =
  year :: nat
  month :: nat
  day :: nat
  hour :: nat
  minute :: nat
  second :: nat
  microsecond :: nat

definition digit_char :: "nat \<Rightarrow> char" where
  "digit_char n = ''0123456789'' ! (n mod 10)"

text \<open>\<open>'%d' % n\<close>, and \<open>'%0wd' % n\<close> which pads with zeros on the left up to width \<open>w\<close>.\<close>

fun str_nat :: "nat \<Rightarrow> string" where
  "str_nat n = (if n < 10 then [digit_char n] else str_nat (n div 10) @ [digit_char n])"

declare str_nat.simps [simp del]

definition zero_padded :: "nat \<Rightarrow> nat \<Rightarrow> string" where
  "zero_padded w n = replicate (w - length (str_nat n)) CHR ''0'' @ str_nat n"

text \<open>
  \<open>datetime.isoformat()\<close>: \<open>'%04d-%02d-%02dT%02d:%02d:%02d'\<close>, followed by \<open>'.%06d'\<close> only
  when the microsecond is not zero.
\<close>

definition isoformat :: "datetime \<Rightarrow> string" where
  "isoformat t =
     zero_padded 4 (year t) @ ''-'' @ zero_padded 2 (month t) @ ''-'' @ zero_padded 2 (day t)
       @ ''T'' @ zero_padded 2 (hour t) @ '':'' @ zero_padded 2 (minute t)
       @ '':'' @ zero_padded 2 (second t)
       @ (if microsecond t \<noteq> 0 then ''.'' @ zero_padded 6 (microsecond t) else [])"

text \<open>The ranges of the fields of a \<open>datetime\<close> object.\<close>

definition valid_datetime :: "datetime \<Rightarrow> bool" where
  "valid_datetime t \<longleftrightarrow>
     1 \<le> year t \<and> year t \<le> 9999 \<and> 1 \<le> month t \<and> month t \<le> 12 \<and>
     1 \<le> day t \<and> day t \<le> 31 \<and> hour t < 24 \<and> minute t < 60 \<and> second t < 60 \<and>
     microsecond t < 1000000"

section \<open>Checkpoints\<close>

record checkpoint =
  cp_root :: "tree_node option"
  cp_time :: datetime
  cp_name :: "string option"

text \<open>
  \<open>re.match('^[a-zA-Z0-9_\-.]+$', name)\<close>: \<open>^\<close> matches at the start of the string, the
  class has to match one or more characters, and \<open>$\<close> matches at the end of the string
  and also just before a newline that is the last character of the string. No character
  of the class is a newline, so the only way to match is to take the longest run of
  class characters.
\<close>

definition name_char :: "char \<Rightarrow> bool" where
  "name_char c \<longleftrightarrow>
     (CHR ''a'' \<le> c \<and> c \<le> CHR ''z'') \<or> (CHR ''A'' \<le> c \<and> c \<le> CHR ''Z'') \<or>
     (CHR ''0'' \<le> c \<and> c \<le> CHR ''9'') \<or> c = CHR ''_'' \<or> c = CHR ''-'' \<or> c = CHR ''.''"

definition dollar :: "string \<Rightarrow> bool" where
  "dollar rest \<longleftrightarrow> rest = [] \<or> rest = [CHR 0x0A]"

definition re_match_name :: "string \<Rightarrow> bool" where
  "re_match_name s \<longleftrightarrow>
     (let matched = takeWhile name_char s; rest = dropWhile name_char s
      in matched \<noteq> [] \<and> dollar rest)"

text \<open>
  \<open>Checkpoint.__init__(root, time, name)\<close>; \<open>now\<close> is what \<open>datetime.now()\<close> returns when
  the constructor is called.
\<close>

definition Checkpoint_init ::
  "tree_node option \<Rightarrow> datetime option \<Rightarrow> string option \<Rightarrow> datetime \<Rightarrow> error + checkpoint" where
  "Checkpoint_init root time name now =
     (if name = None \<or> re_match_name (the name)
      then Inr \<lparr>cp_root = root,
                cp_time = (case time of None \<Rightarrow> now | Some t \<Rightarrow> t),
                cp_name = name\<rparr>
      else Inl AssertionError)"


text \<open>
  \<open>to_json\<close> hands the dictionary \<open>dict(root=..., time=..., name=...)\<close> to \<open>json.dumps\<close>,
  which is a parameter here. A root that is \<open>None\<close> has no \<open>to_dict\<close>.
\<close>

definition to_json_dict :: "checkpoint \<Rightarrow> error + pyval" where
  "to_json_dict c =
     (case cp_root c of
        None \<Rightarrow> Inl AttributeError
      | Some root \<Rightarrow>
          Inr (PDict [(''root'', to_dict root),
                      (''time'', PStr (isoformat (cp_time c))),
                      (''name'', (case cp_name c of None \<Rightarrow> PNone | Some n \<Rightarrow> PStr n))]))"

definition to_json :: "(pyval \<Rightarrow> string) \<Rightarrow> checkpoint \<Rightarrow> error + string" where
  "to_json dumps c = (case to_json_dict c of Inl e \<Rightarrow> Inl e | Inr d \<Rightarrow> Inr (dumps d))"

text \<open>
  \<open>Checkpoint.iter\<close> is a generator: the model returns the pairs it yields, in order, and
  the exception that ends the iteration early, if there is one. \<open>stack\<close> is a Python list:
  \<open>pop()\<close> takes its last element and \<open>append\<close> adds at the end.
  \<open>os.path.join(current_path, child_name)\<close> needs a string.
\<close>

fun path_join_val :: "string \<Rightarrow> pyval \<Rightarrow> error + string" where
  "path_join_val a (PStr b) = Inr (os_path_join a b)"
| "path_join_val a _ = Inl BuiltinTypeError"

text \<open>The \<open>for\<close> loop over \<open>current_node.children.items()\<close>.\<close>

fun append_children ::
  "string \<Rightarrow> (pyval \<times> tree_node) list \<Rightarrow> (tree_node option \<times> string) list
     \<Rightarrow> error + (tree_node option \<times> string) list" where
  "append_children current_path [] stack = Inr stack"
| "append_children current_path ((child_name, child_node) # items) stack =
     (case path_join_val current_path child_name of
        Inl e \<Rightarrow> Inl e
      | Inr p \<Rightarrow> append_children current_path items (stack @ [(Some child_node, p)]))"

text \<open>\<open>isinstance(current_node, DirectoryNode)\<close> and the items of its dictionary.\<close>

fun children_of :: "tree_node option \<Rightarrow> (pyval \<times> tree_node) list" where
  "children_of (Some (DirectoryNode name checksum permissions children)) = children"
| "children_of _ = []"

fun tree_size :: "tree_node \<Rightarrow> nat" where
  "tree_size (DirectoryNode name checksum permissions children) =
     Suc (sum_list (map (\<lambda>kv. tree_size (snd kv)) children))"
| "tree_size _ = 1"

fun stack_size :: "(tree_node option \<times> string) list \<Rightarrow> nat" where
  "stack_size [] = 0"
| "stack_size ((None, p) # stack) = Suc (stack_size stack)"
| "stack_size ((Some node, p) # stack) = tree_size node + stack_size stack"

lemma stack_size_append: "stack_size (xs @ ys) = stack_size xs + stack_size ys"
  by (induction xs rule: stack_size.induct) simp_all

lemma append_children_size:
  "append_children p items stack = Inr stack' \<Longrightarrow>
     stack_size stack' = stack_size stack + sum_list (map (\<lambda>kv. tree_size (snd kv)) items)"
  by (induction p items stack rule: append_children.induct)
     (auto simp: stack_size_append split: sum.splits)

lemma stack_size_children_of:
  "sum_list (map (\<lambda>kv. tree_size (snd kv)) (children_of node)) < stack_size [(node, p)]"
  by (cases "(node, p) # []" rule: stack_size.cases; cases node rule: children_of.cases) auto

function iter_loop ::
  "(tree_node option \<times> string) list
     \<Rightarrow> (tree_node option \<times> string) list \<times> error option" where
  "iter_loop stack =
     (if stack = [] then ([], None)
      else
        (let (current_node, current_path) = last stack in
         case append_children current_path (children_of current_node) (butlast stack) of
           Inl e \<Rightarrow> ([(current_node, current_path)], Some e)
         | Inr stack' \<Rightarrow>
             (case iter_loop stack' of
                (yielded, r) \<Rightarrow> ((current_node, current_path) # yielded, r))))"
  by pat_completeness auto
termination
proof (relation "measure stack_size", goal_cases)
  case (2 stack x current_node current_path stack')
  from 2(1,2,3) have eq: "butlast stack @ [(current_node, current_path)] = stack"
    by simp
  have "stack_size stack = stack_size (butlast stack @ [(current_node, current_path)])"
    by (simp only: eq)
  also have "\<dots> = stack_size (butlast stack) + stack_size [(current_node, current_path)]"
    by (rule stack_size_append)
  finally have "stack_size stack
      = stack_size (butlast stack) + stack_size [(current_node, current_path)]" .
  with append_children_size [OF 2(4)] stack_size_children_of [of current_node current_path]
  show ?case by simp
qed simp

definition Checkpoint_iter ::
  "checkpoint \<Rightarrow> (tree_node option \<times> string) list \<times> error option" where
  "Checkpoint_iter c = iter_loop [(cp_root c, '''')]"

section \<open>Checkpoint identifiers\<close>

record checkpoint_meta =
  meta_checksum :: string
  meta_time :: datetime
  meta_name :: "string option"

text \<open>\<open>if self.name\<close> holds for a name that is neither \<open>None\<close> nor empty.\<close>

definition CheckpointMeta_to_string :: "checkpoint_meta \<Rightarrow> string" where
  "CheckpointMeta_to_string m =
     (let timestring = isoformat (meta_time m);
          timestring = timestring @ (if length timestring = 19 then ''.000000'' else [])
      in meta_checksum m @ ''_'' @ timestring
           @ (case meta_name m of
                None \<Rightarrow> []
              | Some n \<Rightarrow> if n \<noteq> [] then ''_'' @ n else []))"

text \<open>\<open>s.split(sep, maxsplit)\<close> for a separator of one character.\<close>

fun split :: "char \<Rightarrow> nat \<Rightarrow> string \<Rightarrow> string list" where
  "split sep 0 s = [s]"
| "split sep (Suc maxsplit) s =
     (if sep \<in> set s
      then takeWhile (\<lambda>c. c \<noteq> sep) s # split sep maxsplit (tl (dropWhile (\<lambda>c. c \<noteq> sep) s))
      else [s])"

text \<open>
  \<open>CheckpointMeta.from_string\<close>. The helper \<open>datetime_from_iso_format\<close> of
  \<open>bakker/utils.py\<close> is the parameter \<open>parse\<close>. \<open>boom[1]\<close> is out of range when the string
  has no underscore.
\<close>

definition CheckpointMeta_from_string ::
  "(string \<Rightarrow> error + datetime) \<Rightarrow> string \<Rightarrow> error + checkpoint_meta" where
  "CheckpointMeta_from_string parse string =
     (let boom = split CHR ''_'' 2 string;
          checksum = boom ! 0
      in if length boom < 2 then Inl IndexError
         else
           (case parse (boom ! 1) of
              Inl e \<Rightarrow> Inl e
            | Inr time \<Rightarrow>
                Inr \<lparr>meta_checksum = checksum,
                     meta_time = time,
                     meta_name = (if length boom = 2 then None else Some (boom ! 2))\<rparr>))"

text \<open>
  Modelled from the spec: \<open>datetime_from_iso_format\<close> of \<open>bakker/utils.py\<close>, which is not
  part of the sources at hand. The spec describes it as the helper that converts an ISO-8601
  string without time zone into a time value and that accepts both the 19-character form
  (second precision) and the full microsecond-precision form. The model accepts exactly
  the strings \<open>YYYY-MM-DDTHH:MM:SS\<close> and \<open>YYYY-MM-DDTHH:MM:SS.ffffff\<close> and reads their
  fields as decimal numbers; any other string is a \<open>ValueError\<close>.
\<close>

definition is_digit :: "char \<Rightarrow> bool" where
  "is_digit c \<longleftrightarrow> CHR ''0'' \<le> c \<and> c \<le> CHR ''9''"

definition digit_val :: "char \<Rightarrow> nat" where
  "digit_val c = of_char c - 48"

definition nat_of_digits :: "string \<Rightarrow> nat" where
  "nat_of_digits s = foldl (\<lambda>n c. 10 * n + digit_val c) 0 s"

definition field :: "string \<Rightarrow> nat \<Rightarrow> nat \<Rightarrow> string" where
  "field s i n = take n (drop i s)"

definition datetime_from_iso_format :: "string \<Rightarrow> error + datetime" where
  "datetime_from_iso_format s =
     (if (length s = 19 \<or> length s = 26)
         \<and> field s 4 1 = ''-'' \<and> field s 7 1 = ''-'' \<and> field s 10 1 = ''T''
         \<and> field s 13 1 = '':'' \<and> field s 16 1 = '':''
         \<and> (length s = 19 \<or> field s 19 1 = ''.'')
         \<and> list_all is_digit
              (field s 0 4 @ field s 5 2 @ field s 8 2 @ field s 11 2 @ field s 14 2
                 @ field s 17 2 @ field s 20 6)
      then Inr \<lparr>year = nat_of_digits (field s 0 4),
                month = nat_of_digits (field s 5 2),
                day = nat_of_digits (field s 8 2),
                hour = nat_of_digits (field s 11 2),
                minute = nat_of_digits (field s 14 2),
                second = nat_of_digits (field s 17 2),
                microsecond = nat_of_digits (field s 20 6)\<rparr>
      else Inl ValueError)"

section \<open>Reference forms of a time stamp\<close>

text \<open>
  The two ISO-8601 forms without time zone: second precision, \<open>YYYY-MM-DDTHH:MM:SS\<close>, and
  microsecond precision, \<open>YYYY-MM-DDTHH:MM:SS.ffffff\<close>.
\<close>

definition seconds_form :: "datetime \<Rightarrow> string" where
  "seconds_form t =
     zero_padded 4 (year t) @ ''-'' @ zero_padded 2 (month t) @ ''-'' @ zero_padded 2 (day t)
       @ ''T'' @ zero_padded 2 (hour t) @ '':'' @ zero_padded 2 (minute t)
       @ '':'' @ zero_padded 2 (second t)"

definition microsecond_form :: "datetime \<Rightarrow> string" where
  "microsecond_form t = seconds_form t @ ''.'' @ zero_padded 6 (microsecond t)"

section \<open>Reference notions for serialized directories\<close>

text \<open>The last element of a list of serialized nodes that carries the name \<open>k\<close>.\<close>

definition last_entry_named :: "pyval \<Rightarrow> pyval list \<Rightarrow> pyval option" where
  "last_entry_named k cs = List.find (\<lambda>c. getitem c ''name'' = Inr k) (rev cs)"

text \<open>
  The data model of a directory node: \<open>children\<close> maps the name of each child to the
  child, so the keys are pairwise different, hashable, and each is the name of its value.
\<close>

fun wf_node :: "tree_node \<Rightarrow> bool" where
  "wf_node (DirectoryNode name checksum permissions children) \<longleftrightarrow>
     distinct (map fst children) \<and>
     list_all (\<lambda>kv. hashable (fst kv) \<and> node_name (snd kv) = fst kv \<and> wf_node (snd kv)) children"
| "wf_node _ \<longleftrightarrow> True"

definition wf_items :: "(pyval \<times> tree_node) list \<Rightarrow> bool" where
  "wf_items ch \<longleftrightarrow> distinct (map fst ch) \<and>
     list_all (\<lambda>kv. hashable (fst kv) \<and> node_name (snd kv) = fst kv \<and> wf_node (snd kv)) ch"

section \<open>Reference traversal of a tree\<close>

text \<open>
  The depth-first traversal that yields a node, then the subtrees of its children from
  the last inserted child to the first, each child under the path of its parent joined
  with its key.
\<close>

fun is_str :: "pyval \<Rightarrow> bool" where
  "is_str (PStr s) = True"
| "is_str _ = False"

fun str_of :: "pyval \<Rightarrow> string" where
  "str_of (PStr s) = s"
| "str_of _ = []"

fun walk :: "tree_node \<Rightarrow> string \<Rightarrow> (tree_node option \<times> string) list" where
  "walk (DirectoryNode name checksum permissions children) path =
     (Some (DirectoryNode name checksum permissions children), path)
       # concat (rev (map (\<lambda>kv. walk (snd kv) (os_path_join path (str_of (fst kv)))) children))"
| "walk node path = [(Some node, path)]"

fun walk_entry :: "tree_node option \<times> string \<Rightarrow> (tree_node option \<times> string) list" where
  "walk_entry (None, path) = [(None, path)]"
| "walk_entry (Some node, path) = walk node path"

text \<open>Every key of every directory of the tree is a string.\<close>

fun str_keys :: "tree_node \<Rightarrow> bool" where
  "str_keys (DirectoryNode name checksum permissions children) \<longleftrightarrow>
     list_all (\<lambda>kv. is_str (fst kv) \<and> str_keys (snd kv)) children"
| "str_keys _ \<longleftrightarrow> True"

text \<open>A stack entry whose node, if any, has string keys throughout.\<close>

fun entry_ok :: "tree_node option \<times> string \<Rightarrow> bool" where
  "entry_ok (None, p) = True"
| "entry_ok (Some node, p) = str_keys node"

section \<open>Reference notions for built trees\<close>

text \<open>
  The entries of a directory that its build keeps: those that are a file or a directory
  for \<open>os.path\<close>, links followed, and none when the process may not search the directory.
\<close>

definition kept_entries ::
  "accessor \<Rightarrow> nat \<Rightarrow> (string \<times> fs_entry) list \<Rightarrow> (string \<times> fs_entry) list" where
  "kept_entries who mode listing =
     (if may_search who mode then filter (\<lambda>ne. isfile (snd ne) \<or> isdir (snd ne)) listing
      else [])"

text \<open>
  The content digest of a file system entry, defined on the entry alone: the digest of
  the content of a file, of the target of a link, and for a directory the digest of the
  content digests of the entries it keeps, concatenated in ascending order of their
  names.
\<close>

function content_digest :: "(bytes \<Rightarrow> string) \<Rightarrow> fs_entry \<Rightarrow> string" where
  "content_digest H (RegularFile who mode content) = H content"
| "content_digest H (Symlink mode target resolves) = H target"
| "content_digest H (Directory who mode listing) =
     H (concat (map (\<lambda>ne. content_digest H (snd ne))
                  (sort_key fst (kept_entries who mode listing))))"
| "content_digest H (Special mode) = []"
  by pat_completeness auto
termination
proof (relation "measure (\<lambda>(H, e). size e)", goal_cases)
  case (2 H who mode listing ne)
  then have "ne \<in> set listing"
    by (auto simp: kept_entries_def split: if_splits)
  then have "size (snd ne) < Suc (size_list (size_prod (\<lambda>_. 0) size) listing)"
    by (induction listing) auto
  then show ?case by simp
qed simp

text \<open>Every directory of the tree lists each name once, as a file system does.\<close>

fun unique_names :: "fs_entry \<Rightarrow> bool" where
  "unique_names (Directory who mode listing) \<longleftrightarrow>
     distinct (map fst listing) \<and> list_all (\<lambda>ne. unique_names (snd ne)) listing"
| "unique_names _ \<longleftrightarrow> True"

text \<open>
  The process has the access that the build of an entry asks for: it may read every file
  and list every directory the build comes to, and the target of every link it comes to
  is well-formed UTF-8. The build does not come to what a directory it may not search
  holds, nor to an entry it ignores.
\<close>

fun accessible :: "fs_entry \<Rightarrow> bool" where
  "accessible (RegularFile who mode content) \<longleftrightarrow> may_read who mode"
| "accessible (Symlink mode target resolves) \<longleftrightarrow> valid_utf8 target"
| "accessible (Directory who mode listing) \<longleftrightarrow>
     may_read who mode \<and>
     list_all (\<lambda>ne. child_isfile (may_search who mode) (snd ne)
                      \<or> child_isdir (may_search who mode) (snd ne) \<longrightarrow> accessible (snd ne)) listing"
| "accessible (Special mode) \<longleftrightarrow> True"

definition accessible_children :: "bool \<Rightarrow> (string \<times> fs_entry) list \<Rightarrow> bool" where
  "accessible_children search listing \<longleftrightarrow>
     list_all (\<lambda>ne. child_isfile search (snd ne) \<or> child_isdir search (snd ne)
                      \<longrightarrow> accessible (snd ne)) listing"

text \<open>
  The digest that the loop of \<open>DirectoryNode.build_node\<close> computes, for any listing:
  \<open>children_digests\<close> follows the loop on a dictionary from names to digests.
\<close>

fun digest_of :: "(bytes \<Rightarrow> string) \<Rightarrow> fs_entry \<Rightarrow> string"
  and children_digests ::
    "(bytes \<Rightarrow> string) \<Rightarrow> bool \<Rightarrow> (string \<times> fs_entry) list \<Rightarrow> (string \<times> string) list
       \<Rightarrow> (string \<times> string) list"
where
  "digest_of H (RegularFile who mode content) = H content"
| "digest_of H (Symlink mode target resolves) = H target"
| "digest_of H (Directory who mode listing) =
     H (concat (map snd (sort_key fst (children_digests H (may_search who mode) listing []))))"
| "digest_of H (Special mode) = []"
| "children_digests H search [] acc = acc"
| "children_digests H search ((child_name, child) # listing) acc =
     (if \<not> child_isfile search child \<and> \<not> child_isdir search child
      then children_digests H search listing acc
      else children_digests H search listing (dict_setitem child_name (digest_of H child) acc))"

text \<open>What the builder is shown to return for an entry and a name.\<close>

definition built_from :: "(bytes \<Rightarrow> string) \<Rightarrow> fs_entry \<Rightarrow> string \<Rightarrow> tree_node \<Rightarrow> bool" where
  "built_from H e name node \<longleftrightarrow>
     node_name node = PStr name \<and> node_checksum node = PStr (digest_of H e) \<and>
     node_permissions node = PInt (int (S_IMODE (st_mode e))) \<and> wf_node node \<and> str_keys node"

text \<open>
  The dictionary \<open>children\<close> during the loop: its keys are pairwise different and every
  value is a node that carries its key as name and a string as checksum.
\<close>

definition dict_ok :: "(string \<times> tree_node option) list \<Rightarrow> bool" where
  "dict_ok ch \<longleftrightarrow>
     distinct (map fst ch) \<and>
     list_all (\<lambda>kv. case snd kv of
                      None \<Rightarrow> False
                    | Some node \<Rightarrow> node_name node = PStr (fst kv) \<and> is_str (node_checksum node)
                        \<and> wf_node node \<and> str_keys node) ch"

definition digests_of :: "(string \<times> tree_node option) list \<Rightarrow> (string \<times> string) list" where
  "digests_of ch =
     map (\<lambda>kv. (fst kv, case snd kv of None \<Rightarrow> [] | Some node \<Rightarrow> str_of (node_checksum node))) ch"

text \<open>The same entry with every mode set to zero: what is left is content and structure.\<close>

fun strip_modes :: "fs_entry \<Rightarrow> fs_entry" where
  "strip_modes (RegularFile who mode content) = RegularFile who 0 content"
| "strip_modes (Symlink mode target resolves) = Symlink 0 target resolves"
| "strip_modes (Directory who mode listing) =
     Directory who 0 (map (\<lambda>ne. (fst ne, strip_modes (snd ne))) listing)"
| "strip_modes (Special mode) = Special 0"

text \<open>
  The same entry with every mode replaced by the access it gives the process: the read
  bit of a file, the read and the search bit of a directory, in the class of anybody.
  What is left is content, structure and access.
\<close>

fun access_view :: "fs_entry \<Rightarrow> fs_entry" where
  "access_view (RegularFile who mode content) =
     RegularFile Other (if may_read who mode then 4 else 0) content"
| "access_view (Symlink mode target resolves) = Symlink 0 target resolves"
| "access_view (Directory who mode listing) =
     Directory Other ((if may_read who mode then 4 else 0) + (if may_search who mode then 1 else 0))
       (map (\<lambda>ne. (fst ne, access_view (snd ne))) listing)"
| "access_view (Special mode) = Special 0"

text \<open>The process is the superuser for every file and directory of the tree.\<close>

fun superuser_only :: "fs_entry \<Rightarrow> bool" where
  "superuser_only (RegularFile who mode content) \<longleftrightarrow> who = Superuser"
| "superuser_only (Symlink mode target resolves) \<longleftrightarrow> True"
| "superuser_only (Directory who mode listing) \<longleftrightarrow>
     who = Superuser \<and> list_all (\<lambda>ne. superuser_only (snd ne)) listing"
| "superuser_only (Special mode) \<longleftrightarrow> True"

section \<open>Hashing a file\<close>

declare read_loop.simps [simp del]
declare iter_loop.simps [simp del]

text \<open>
  The read loop feeds the whole content to the hash, whatever the block size: when the
  buffer is empty nothing is left to read.
\<close>

lemma read_loop_concat:
  "(file_buffer = [] \<longrightarrow> f = []) \<Longrightarrow> read_loop message file_buffer f = message @ file_buffer @ f"
proof (induction message file_buffer f rule: read_loop.induct)
  case (1 message file_buffer f)
  show ?case
  proof (cases "file_buffer = []")
    case True
    with 1(2) have "f = []" by simp
    show ?thesis
      unfolding True \<open>f = []\<close> by (subst read_loop.simps) simp
  next
    case False
    have "take BLOCKSIZE f = [] \<longrightarrow> drop BLOCKSIZE f = []"
      by (auto simp: BLOCKSIZE_def)
    with 1(1) False
    have "read_loop (xxh64_update message file_buffer) (take BLOCKSIZE f) (drop BLOCKSIZE f)
            = xxh64_update message file_buffer @ take BLOCKSIZE f @ drop BLOCKSIZE f"
      by simp
    with False show ?thesis
      by (simp add: read_loop.simps [of message file_buffer f] xxh64_update_def)
  qed
qed

lemma FileNode_build_node_RegularFile:
  "FileNode_build_node H (RegularFile who mode content) name =
     (if may_read who mode
      then Inr (FileNode (PStr name) (PStr (H content)) (PInt (int (S_IMODE mode))))
      else Inl PermissionError)"
proof -
  have "take BLOCKSIZE content = [] \<longrightarrow> drop BLOCKSIZE content = []"
    by (auto simp: BLOCKSIZE_def)
  then have "read_loop xxh64_new (take BLOCKSIZE content) (drop BLOCKSIZE content) = content"
    by (simp add: read_loop_concat xxh64_new_def)
  then show ?thesis
    by (simp add: hexdigest_def)
qed

lemma SymlinkNode_build_node_Symlink:
  "SymlinkNode_build_node H (Symlink mode target resolves) name =
     (if valid_utf8 target
      then Inr (SymlinkNode (PStr name) (PStr (H target)) (PInt (int (S_IMODE mode))))
      else Inl UnicodeEncodeError)"
  by (simp add: hexdigest_def xxh64_update_def xxh64_new_def)

text \<open>Bytes below 128 are well-formed UTF-8 on their own.\<close>

lemma valid_utf8_ascii: "list_all (\<lambda>c. of_char c < (128::nat)) s \<Longrightarrow> valid_utf8 s"
  by (induction s) (simp_all add: sequence_length_def)

lemmas [simp del] = FileNode_build_node.simps(1) SymlinkNode_build_node.simps(1)

section \<open>Entries a directory build skips\<close>

text \<open>
  Claim C6. During directory building, exactly the entries that are neither file,
  directory nor symlink are skipped with a warning while the build of the directory
  continues, and every symlink child becomes a \<open>SymlinkNode\<close>, also a symlink whose target
  does not resolve to an existing file or directory.

  The code does not do this for a dangling link. The guard of the loop in
  \<open>DirectoryNode.build_node\<close> tests only \<open>os.path.isfile\<close> and \<open>os.path.isdir\<close>, which
  follow links, so a link that resolves to nothing is ignored like a device file: in the
  directory \<open>/r\<close> below, which its owner builds with modes that give every access, the
  dangling link \<open>l\<close> is reported as ignored and is no child of the node, while the file
  \<open>f\<close> after it is built. \<open>TreeNode.build_node\<close> itself, called on
  the same link, tests \<open>os.path.islink\<close> first and returns a \<open>SymlinkNode\<close>.
\<close>

theorem DirectoryNode_build_node_ignores_dangling_symlink:
  "DirectoryNode_build_node H ''/r'' Owner 493
       [(''l'', Symlink 511 ''missing'' ToNothing), (''f'', RegularFile Owner 420 ''hi'')] ''''
     = ([''Ignored: /r/l''],
        Inr (DirectoryNode (PStr '''') (PStr (H (H ''hi''))) (PInt 493)
               [(PStr ''f'', FileNode (PStr ''f'') (PStr (H ''hi'')) (PInt 420))]))
   \<and> TreeNode_build_node H ''/r/l'' (Symlink 511 ''missing'' ToNothing) ''l''
     = ([], Inr (Some (SymlinkNode (PStr ''l'') (PStr (H ''missing'')) (PInt 511))))"
proof -
  have "valid_utf8 ''missing''"
    by (rule valid_utf8_ascii) simp
  then show ?thesis
    by (simp add: FileNode_build_node_RegularFile SymlinkNode_build_node_Symlink os_path_join_def
          dict_setitem_def directory_checksum_def S_IMODE_def xxh64_new_def xxh64_update_def
          hexdigest_def may_read_def may_search_def child_isfile_def child_isdir_def
          del: valid_utf8.simps)
qed

section \<open>Unknown node types\<close>

text \<open>
  Claim C7. For every serialized node whose type discriminator is not \<open>directory\<close>,
  \<open>file\<close> or \<open>symlink\<close>, \<open>TreeNode.from_dict\<close> fails with an error that identifies the
  unrecognized discriminator, and the parse aborts.

  The parse does abort, but the message is built from \<open>d['name']\<close> and not from
  \<open>d['type']\<close>: for a node named \<open>foo\<close> of type \<open>socket\<close> the error reads
  \<open>Type foo does not exist.\<close> and does not mention \<open>socket\<close>.
\<close>

theorem TreeNode_from_dict_unknown_type_names_the_node:
  "TreeNode_from_dict
     (PDict [(''name'', PStr ''foo''), (''checksum'', PStr ''ef46db3751d8e999''),
             (''permissions'', PInt 420), (''type'', PStr ''socket'')])
     = Inl (TypeError ''Type foo does not exist.'')"
  by simp

section \<open>Checkpoint names\<close>

text \<open>
  Claim C8. Checkpoint construction fails exactly when a name is supplied that does not
  match \<open>^[a-zA-Z0-9_.-]+$\<close>: every supplied name that contains a character outside the
  class, or is empty, makes the construction raise.

  The code accepts a name that ends in a newline: \<open>$\<close> of \<open>re.match\<close> also matches just
  before a final newline, so the name \<open>a\<close> followed by a newline, whose last character is
  outside the class, passes the assertion and the checkpoint is constructed.
\<close>

theorem Checkpoint_init_accepts_trailing_newline:
  "Checkpoint_init root time (Some [CHR ''a'', CHR 0x0A]) now =
     Inr \<lparr>cp_root = root, cp_time = (case time of None \<Rightarrow> now | Some t \<Rightarrow> t),
          cp_name = Some [CHR ''a'', CHR 0x0A]\<rparr>
   \<and> \<not> list_all name_char [CHR ''a'', CHR 0x0A]"
  by (simp add: Checkpoint_init_def re_match_name_def name_char_def dollar_def)

text \<open>
  The names the constructor accepts are the non-empty strings over the class, each with
  or without one newline at its end; an absent name is accepted too.
\<close>

lemma re_match_name_iff:
  "re_match_name s \<longleftrightarrow>
     (\<exists>body. body \<noteq> [] \<and> list_all name_char body \<and> (s = body \<or> s = body @ [CHR 0x0A]))"
proof
  assume "re_match_name s"
  then have m: "takeWhile name_char s \<noteq> []" and d: "dollar (dropWhile name_char s)"
    by (simp_all add: re_match_name_def Let_def)
  have "s = takeWhile name_char s @ dropWhile name_char s" by simp
  moreover have "list_all name_char (takeWhile name_char s)"
    by (simp add: list_all_iff) (meson set_takeWhileD)
  ultimately show "\<exists>body. body \<noteq> [] \<and> list_all name_char body \<and> (s = body \<or> s = body @ [CHR 0x0A])"
    using m d unfolding dollar_def by (metis append_Nil2)
next
  assume "\<exists>body. body \<noteq> [] \<and> list_all name_char body \<and> (s = body \<or> s = body @ [CHR 0x0A])"
  then obtain body where b: "body \<noteq> []" "list_all name_char body"
    and s: "s = body \<or> s = body @ [CHR 0x0A]" by blast
  have nl: "\<not> name_char (CHR 0x0A)" by (simp add: name_char_def)
  from b(2) have all: "\<forall>c\<in>set body. name_char c" by (simp add: list_all_iff)
  then have tw: "takeWhile name_char body = body"
    by (simp add: takeWhile_eq_all_conv)
  from s show "re_match_name s"
  proof
    assume "s = body"
    with b all show ?thesis by (simp add: re_match_name_def dollar_def tw)
  next
    assume "s = body @ [CHR 0x0A]"
    with b all nl show ?thesis
      by (simp add: re_match_name_def dollar_def takeWhile_append2 dropWhile_append2)
  qed
qed

section \<open>Decimal fields of a time stamp\<close>


lemma digit_char_props:
  "is_digit (digit_char n) \<and> digit_val (digit_char n) = n mod 10 \<and> digit_char n \<noteq> CHR ''_''"
proof -
  define m where "m = n mod 10"
  then have "m < 10" by simp
  then have "m = 0 \<or> m = 1 \<or> m = 2 \<or> m = 3 \<or> m = 4 \<or> m = 5 \<or> m = 6
      \<or> m = 7 \<or> m = 8 \<or> m = 9"
    by arith
  then have "is_digit (''0123456789'' ! m) \<and> digit_val (''0123456789'' ! m) = m
      \<and> ''0123456789'' ! m \<noteq> CHR ''_''"
    by (elim disjE) (simp_all add: is_digit_def digit_val_def)
  then show ?thesis
    by (simp add: digit_char_def m_def)
qed

lemma str_nat_digits: "list_all is_digit (str_nat n)"
  by (induction n rule: str_nat.induct) (subst str_nat.simps, simp add: digit_char_props)

lemma str_nat_value: "nat_of_digits (str_nat n) = n"
proof (induction n rule: str_nat.induct)
  case (1 n)
  show ?case
  proof (cases "n < 10")
    case True
    then show ?thesis
      by (subst str_nat.simps) (simp add: nat_of_digits_def digit_char_props)
  next
    case False
    with 1 have "nat_of_digits (str_nat (n div 10)) = n div 10" by simp
    with False show ?thesis
      by (subst str_nat.simps) (simp add: nat_of_digits_def digit_char_props)
  qed
qed

lemma str_nat_length: "0 < k \<Longrightarrow> n < 10 ^ k \<Longrightarrow> length (str_nat n) \<le> k"
proof (induction n arbitrary: k rule: str_nat.induct)
  case (1 n)
  show ?case
  proof (cases "n < 10")
    case True
    with 1(2) show ?thesis by (subst str_nat.simps) simp
  next
    case False
    with 1(3) have "k \<noteq> 1" by auto
    with 1(2) obtain k' where k: "k = Suc k'" "0 < k'" by (cases k) auto
    with 1(3) have "n div 10 < 10 ^ k'" by (simp add: less_mult_imp_div_less mult.commute)
    with 1(1) [OF False k(2)] have "length (str_nat (n div 10)) \<le> k'" by simp
    with False k show ?thesis by (subst str_nat.simps) simp
  qed
qed

lemma nat_of_digits_zeros: "nat_of_digits (replicate m CHR ''0'' @ s) = nat_of_digits s"
proof -
  have "foldl (\<lambda>n c. 10 * n + digit_val c) 0 (replicate m CHR ''0'') = 0"
    by (induction m) (simp_all add: digit_val_def)
  then show ?thesis by (simp add: nat_of_digits_def)
qed

lemma zero_padded_value: "nat_of_digits (zero_padded w n) = n"
  by (simp add: zero_padded_def nat_of_digits_zeros str_nat_value)

lemma zero_padded_digits: "list_all is_digit (zero_padded w n)"
  using str_nat_digits [of n] by (auto simp: zero_padded_def list_all_iff is_digit_def)

lemma zero_padded_length: "0 < w \<Longrightarrow> n < 10 ^ w \<Longrightarrow> length (zero_padded w n) = w"
  using str_nat_length [of w n] by (simp add: zero_padded_def)

lemma str_nat_no_underscore: "CHR ''_'' \<notin> set (str_nat n)"
  using str_nat_digits [of n] by (auto simp: list_all_iff is_digit_def)

lemma zero_padded_no_underscore: "CHR ''_'' \<notin> set (zero_padded w n)"
  using zero_padded_digits [of w n] by (auto simp: list_all_iff is_digit_def)

lemma isoformat_no_underscore: "CHR ''_'' \<notin> set (isoformat t)"
  by (simp add: isoformat_def zero_padded_no_underscore)

section \<open>Time stamps written and read back\<close>

lemma isoformat_forms:
  "isoformat t = (if microsecond t = 0 then seconds_form t else microsecond_form t)"
  by (simp add: isoformat_def seconds_form_def microsecond_form_def)

lemma valid_datetime_lengths:
  assumes "valid_datetime t"
  shows "length (zero_padded 4 (year t)) = 4" "length (zero_padded 2 (month t)) = 2"
    "length (zero_padded 2 (day t)) = 2" "length (zero_padded 2 (hour t)) = 2"
    "length (zero_padded 2 (minute t)) = 2" "length (zero_padded 2 (second t)) = 2"
    "length (zero_padded 6 (microsecond t)) = 6"
  using assms by (simp_all add: valid_datetime_def zero_padded_length)

lemma seconds_form_length: "valid_datetime t \<Longrightarrow> length (seconds_form t) = 19"
  by (simp add: seconds_form_def valid_datetime_lengths)

lemma microsecond_form_length: "valid_datetime t \<Longrightarrow> length (microsecond_form t) = 26"
  by (simp add: microsecond_form_def seconds_form_length valid_datetime_lengths)

lemma zero_padded_zero: "zero_padded 6 0 = ''000000''"
  by code_simp

text \<open>The time string of \<open>CheckpointMeta.to_string\<close>.\<close>

lemma padded_timestring:
  assumes "valid_datetime t"
  shows "isoformat t @ (if length (isoformat t) = 19 then ''.000000'' else []) = microsecond_form t"
proof (cases "microsecond t = 0")
  case True
  with assms show ?thesis
    by (simp add: isoformat_forms seconds_form_length microsecond_form_def zero_padded_zero)
next
  case False
  with assms show ?thesis
    by (simp add: isoformat_forms microsecond_form_length)
qed

lemma parse_microsecond_form:
  assumes "valid_datetime t"
  shows "datetime_from_iso_format (microsecond_form t) = Inr t"
proof -
  note L = valid_datetime_lengths [OF assms]
  define Y where "Y = zero_padded 4 (year t)"
  define Mo where "Mo = zero_padded 2 (month t)"
  define D where "D = zero_padded 2 (day t)"
  define h where "h = zero_padded 2 (hour t)"
  define mi where "mi = zero_padded 2 (minute t)"
  define se where "se = zero_padded 2 (second t)"
  define us where "us = zero_padded 6 (microsecond t)"
  note defs = Y_def Mo_def D_def h_def mi_def se_def us_def
  have len: "length Y = 4" "length Mo = 2" "length D = 2" "length h = 2" "length mi = 2"
    "length se = 2" "length us = 6"
    using L by (simp_all add: defs)
  have s: "microsecond_form t = Y @ ''-'' @ Mo @ ''-'' @ D @ ''T'' @ h @ '':'' @ mi @ '':'' @ se @ ''.'' @ us"
    by (simp add: microsecond_form_def seconds_form_def defs)
  have f: "field (microsecond_form t) 0 4 = Y" "field (microsecond_form t) 5 2 = Mo"
    "field (microsecond_form t) 8 2 = D" "field (microsecond_form t) 11 2 = h"
    "field (microsecond_form t) 14 2 = mi" "field (microsecond_form t) 17 2 = se"
    "field (microsecond_form t) 20 6 = us"
    "field (microsecond_form t) 4 1 = ''-''" "field (microsecond_form t) 7 1 = ''-''"
    "field (microsecond_form t) 10 1 = ''T''" "field (microsecond_form t) 13 1 = '':''"
    "field (microsecond_form t) 16 1 = '':''" "field (microsecond_form t) 19 1 = ''.''"
    unfolding s field_def using len by simp_all
  have dig: "list_all is_digit (Y @ Mo @ D @ h @ mi @ se @ us)"
    by (simp add: defs zero_padded_digits)
  have v: "nat_of_digits Y = year t" "nat_of_digits Mo = month t" "nat_of_digits D = day t"
    "nat_of_digits h = hour t" "nat_of_digits mi = minute t" "nat_of_digits se = second t"
    "nat_of_digits us = microsecond t"
    by (simp_all add: defs zero_padded_value)
  have "length (microsecond_form t) = 26"
    using assms by (rule microsecond_form_length)
  then show ?thesis
    unfolding datetime_from_iso_format_def f using dig v by simp
qed

lemma parse_seconds_form:
  assumes "valid_datetime t" and "microsecond t = 0"
  shows "datetime_from_iso_format (seconds_form t) = Inr t"
proof -
  note L = valid_datetime_lengths [OF assms(1)]
  define Y where "Y = zero_padded 4 (year t)"
  define Mo where "Mo = zero_padded 2 (month t)"
  define D where "D = zero_padded 2 (day t)"
  define h where "h = zero_padded 2 (hour t)"
  define mi where "mi = zero_padded 2 (minute t)"
  define se where "se = zero_padded 2 (second t)"
  note defs = Y_def Mo_def D_def h_def mi_def se_def
  have len: "length Y = 4" "length Mo = 2" "length D = 2" "length h = 2" "length mi = 2"
    "length se = 2"
    using L by (simp_all add: defs)
  have s: "seconds_form t = Y @ ''-'' @ Mo @ ''-'' @ D @ ''T'' @ h @ '':'' @ mi @ '':'' @ se"
    by (simp add: seconds_form_def defs)
  have f: "field (seconds_form t) 0 4 = Y" "field (seconds_form t) 5 2 = Mo"
    "field (seconds_form t) 8 2 = D" "field (seconds_form t) 11 2 = h"
    "field (seconds_form t) 14 2 = mi" "field (seconds_form t) 17 2 = se"
    "field (seconds_form t) 20 6 = []"
    "field (seconds_form t) 4 1 = ''-''" "field (seconds_form t) 7 1 = ''-''"
    "field (seconds_form t) 10 1 = ''T''" "field (seconds_form t) 13 1 = '':''"
    "field (seconds_form t) 16 1 = '':''"
    unfolding s field_def using len by simp_all
  have dig: "list_all is_digit (Y @ Mo @ D @ h @ mi @ se)"
    by (simp add: defs zero_padded_digits)
  have v: "nat_of_digits Y = year t" "nat_of_digits Mo = month t" "nat_of_digits D = day t"
    "nat_of_digits h = hour t" "nat_of_digits mi = minute t" "nat_of_digits se = second t"
    by (simp_all add: defs zero_padded_value)
  have v0: "nat_of_digits [] = microsecond t"
    using assms(2) by (simp add: nat_of_digits_def)
  have "length (seconds_form t) = 19"
    using assms(1) by (rule seconds_form_length)
  then show ?thesis
    unfolding datetime_from_iso_format_def f using dig v v0 by simp
qed

lemma parse_isoformat:
  "valid_datetime t \<Longrightarrow> datetime_from_iso_format (isoformat t) = Inr t"
  by (simp add: isoformat_forms parse_seconds_form parse_microsecond_form)

section \<open>The identifier of a checkpoint\<close>

lemma takeWhile_sep: "sep \<notin> set a \<Longrightarrow> takeWhile (\<lambda>c. c \<noteq> sep) (a @ sep # r) = a"
  by (induction a) auto

lemma dropWhile_sep: "sep \<notin> set a \<Longrightarrow> dropWhile (\<lambda>c. c \<noteq> sep) (a @ sep # r) = sep # r"
  by (induction a) auto

lemma split_two:
  assumes "sep \<notin> set a" and "sep \<notin> set b"
  shows "split sep 2 (a @ sep # b) = [a, b]"
proof -
  have "split sep (Suc 0) b = [b]"
    using assms(2) by simp
  then show ?thesis
    using assms(1) by (simp add: numeral_2_eq_2 takeWhile_sep dropWhile_sep)
qed

lemma split_three:
  assumes "sep \<notin> set a" and "sep \<notin> set b"
  shows "split sep 2 (a @ sep # b @ sep # c) = [a, b, c]"
proof -
  show ?thesis
    using assms by (simp add: numeral_2_eq_2 takeWhile_sep dropWhile_sep)
qed

lemma microsecond_form_no_underscore: "CHR ''_'' \<notin> set (microsecond_form t)"
  by (simp add: microsecond_form_def seconds_form_def zero_padded_no_underscore)

lemma re_match_name_nonempty: "re_match_name n \<Longrightarrow> n \<noteq> []"
  by (auto simp: re_match_name_def)

lemma CheckpointMeta_to_string_form:
  assumes "valid_datetime time"
    and "case name of None \<Rightarrow> True | Some n \<Rightarrow> re_match_name n"
  shows "CheckpointMeta_to_string \<lparr>meta_checksum = checksum, meta_time = time, meta_name = name\<rparr>
           = checksum @ ''_'' @ microsecond_form time
               @ (case name of None \<Rightarrow> [] | Some n \<Rightarrow> ''_'' @ n)"
  using assms padded_timestring [of time]
  by (auto simp: CheckpointMeta_to_string_def Let_def re_match_name_nonempty split: option.splits)

text \<open>
  Claim C4. For every checksum, time and optional name matching \<open>^[a-zA-Z0-9_.-]+$\<close>
  (so the name may contain underscores), \<open>CheckpointMeta.from_string(meta.to_string())\<close>
  gives back the checksum, the time to the microsecond and the name: \<open>to_string\<close> emits
  the checksum, an underscore and the time, padded with \<open>.000000\<close> when the ISO string has
  19 characters, and then an underscore and the name when there is one; \<open>from_string\<close>
  splits at the first two underscores only and takes the rest as the name.

  The checksum is a hexadecimal digest, so it contains no underscore; the time is a
  \<open>datetime\<close> object, whose fields are in range; and the parsing helper, a parameter here,
  reads the microsecond form of the time back.
\<close>

theorem CheckpointMeta_string_round_trip:
  assumes "CHR ''_'' \<notin> set checksum"
    and "valid_datetime time"
    and "case name of None \<Rightarrow> True | Some n \<Rightarrow> re_match_name n"
    and "parse (microsecond_form time) = Inr time"
  shows "CheckpointMeta_to_string
             \<lparr>meta_checksum = checksum, meta_time = time, meta_name = name\<rparr>
           = checksum @ ''_'' @ microsecond_form time
               @ (case name of None \<Rightarrow> [] | Some n \<Rightarrow> ''_'' @ n)
       \<and> CheckpointMeta_from_string parse
           (CheckpointMeta_to_string
              \<lparr>meta_checksum = checksum, meta_time = time, meta_name = name\<rparr>)
           = Inr \<lparr>meta_checksum = checksum, meta_time = time, meta_name = name\<rparr>"
proof (cases name)
  case None
  have "split CHR ''_'' 2 (checksum @ CHR ''_'' # microsecond_form time)
          = [checksum, microsecond_form time]"
    using assms(1) microsecond_form_no_underscore by (rule split_two)
  with None assms(4) show ?thesis
    using CheckpointMeta_to_string_form [OF assms(2,3), of checksum]
    by (simp add: CheckpointMeta_from_string_def)
next
  case (Some n)
  have "split CHR ''_'' 2 (checksum @ CHR ''_'' # microsecond_form time @ CHR ''_'' # n)
          = [checksum, microsecond_form time, n]"
    using assms(1) microsecond_form_no_underscore by (rule split_three)
  with Some assms(4) show ?thesis
    using CheckpointMeta_to_string_form [OF assms(2,3), of checksum]
    by (simp add: CheckpointMeta_from_string_def)
qed

theorem CheckpointMeta_string_round_trip_witness:
  "CHR ''_'' \<notin> set ''ef46db3751d8e999''
   \<and> valid_datetime \<lparr>year = 2024, month = 1, day = 1, hour = 0, minute = 0, second = 0, microsecond = 0\<rparr>
   \<and> re_match_name ''nightly_run.1''
   \<and> datetime_from_iso_format ''2024-01-01T00:00:00.000000''
       = Inr \<lparr>year = 2024, month = 1, day = 1, hour = 0, minute = 0, second = 0, microsecond = 0\<rparr>
   \<and> CheckpointMeta_to_string
        \<lparr>meta_checksum = ''ef46db3751d8e999'',
         meta_time = \<lparr>year = 2024, month = 1, day = 1, hour = 0, minute = 0, second = 0, microsecond = 0\<rparr>,
         meta_name = Some ''nightly_run.1''\<rparr>
       = ''ef46db3751d8e999_2024-01-01T00:00:00.000000_nightly_run.1''
   \<and> CheckpointMeta_from_string datetime_from_iso_format
        ''ef46db3751d8e999_2024-01-01T00:00:00.000000_nightly_run.1''
       = Inr \<lparr>meta_checksum = ''ef46db3751d8e999'',
              meta_time = \<lparr>year = 2024, month = 1, day = 1, hour = 0, minute = 0, second = 0, microsecond = 0\<rparr>,
              meta_name = Some ''nightly_run.1''\<rparr>"
proof -
  let ?t = "\<lparr>year = 2024, month = 1, day = 1, hour = 0, minute = 0, second = 0, microsecond = 0\<rparr>"
  have h1: "CHR ''_'' \<notin> set ''ef46db3751d8e999''" by simp
  have h2: "valid_datetime ?t" by (simp add: valid_datetime_def)
  have h3: "case Some ''nightly_run.1'' of None \<Rightarrow> True | Some n \<Rightarrow> re_match_name n"
    by (simp add: re_match_name_def name_char_def dollar_def)
  have m: "microsecond_form ?t = ''2024-01-01T00:00:00.000000''" by code_simp
  have h4: "datetime_from_iso_format (microsecond_form ?t) = Inr ?t"
    unfolding m by code_simp
  note r = CheckpointMeta_string_round_trip
         [where parse = datetime_from_iso_format and name = "Some ''nightly_run.1''",
          OF h1 h2 h3 h4, unfolded m]
  have a: "CheckpointMeta_to_string
             \<lparr>meta_checksum = ''ef46db3751d8e999'', meta_time = ?t,
              meta_name = Some ''nightly_run.1''\<rparr>
           = ''ef46db3751d8e999_2024-01-01T00:00:00.000000_nightly_run.1''"
    using r [THEN conjunct1] by simp
  have b: "CheckpointMeta_from_string datetime_from_iso_format
             ''ef46db3751d8e999_2024-01-01T00:00:00.000000_nightly_run.1''
           = Inr \<lparr>meta_checksum = ''ef46db3751d8e999'', meta_time = ?t,
                  meta_name = Some ''nightly_run.1''\<rparr>"
    using r [THEN conjunct2] unfolding a .
  from a b h1 h2 h3 h4 [unfolded m] show ?thesis by simp
qed

section \<open>The time field of the stored document\<close>

text \<open>
  Claim C9. The time field written by \<open>to_json\<close> is an ISO-8601 string without time zone
  that is normalized to microsecond precision on write; a capture time on an exact second
  is still written in the full microsecond form.

  \<open>to_json\<close> writes \<open>self.time.isoformat()\<close> as it is, and \<open>isoformat\<close> leaves the fraction
  out when the microsecond is zero: midnight of 1 January 2024 is written with 19
  characters, where the microsecond form has 26.
\<close>

theorem to_json_time_not_normalized:
  "to_json_dict
     \<lparr>cp_root = Some (FileNode (PStr '''') (PStr ''ef46db3751d8e999'') (PInt 420)),
      cp_time = \<lparr>year = 2024, month = 1, day = 1, hour = 0, minute = 0, second = 0,
                 microsecond = 0\<rparr>,
      cp_name = None\<rparr>
     = Inr (PDict [(''root'', PDict [(''name'', PStr ''''),
                                    (''checksum'', PStr ''ef46db3751d8e999''),
                                    (''permissions'', PInt 420),
                                    (''type'', PStr ''file'')]),
                   (''time'', PStr ''2024-01-01T00:00:00''),
                   (''name'', PNone)])
   \<and> microsecond_form \<lparr>year = 2024, month = 1, day = 1, hour = 0, minute = 0, second = 0,
                         microsecond = 0\<rparr>
     = ''2024-01-01T00:00:00.000000''"
  by code_simp

text \<open>
  Claim C9, as the code has it. For every checkpoint with a root node and a capture time
  whose fields are in range, the time field that \<open>to_json\<close> writes is
  \<open>time.isoformat()\<close>, an ISO-8601 string without time zone: the microsecond form, of 26
  characters, when the microsecond of the capture time is not zero, and the second form,
  of 19 characters, when the capture time falls on an exact second.
\<close>

theorem to_json_time_field:
  assumes "cp_root c = Some root" and "valid_datetime (cp_time c)"
  shows "\<exists>d. to_json_dict c = Inr d \<and> to_json dumps c = Inr (dumps d)
           \<and> getitem d ''time'' = Inr (PStr (isoformat (cp_time c)))
           \<and> isoformat (cp_time c)
               = (if microsecond (cp_time c) = 0 then seconds_form (cp_time c)
                  else microsecond_form (cp_time c))
           \<and> length (isoformat (cp_time c)) = (if microsecond (cp_time c) = 0 then 19 else 26)"
  using assms
  by (simp add: to_json_dict_def to_json_def isoformat_forms seconds_form_length
        microsecond_form_length)

theorem to_json_time_field_witness:
  "valid_datetime \<lparr>year = 2024, month = 2, day = 29, hour = 23, minute = 59, second = 58,
                   microsecond = 5\<rparr>
   \<and> (\<exists>d. to_json_dict
              \<lparr>cp_root = Some (FileNode (PStr '''') (PStr ''ef46db3751d8e999'') (PInt 420)),
               cp_time = \<lparr>year = 2024, month = 2, day = 29, hour = 23, minute = 59,
                          second = 58, microsecond = 5\<rparr>,
               cp_name = None\<rparr> = Inr d
          \<and> getitem d ''time'' = Inr (PStr ''2024-02-29T23:59:58.000005''))"
proof -
  let ?t = "\<lparr>year = 2024, month = 2, day = 29, hour = 23, minute = 59, second = 58,
             microsecond = 5\<rparr>"
  let ?r = "FileNode (PStr '''') (PStr ''ef46db3751d8e999'') (PInt 420)"
  let ?c = "\<lparr>cp_root = Some ?r, cp_time = ?t, cp_name = None\<rparr>"
  have h1: "cp_root ?c = Some ?r" by simp
  have h2: "valid_datetime (cp_time ?c)" by (simp add: valid_datetime_def)
  have i: "isoformat ?t = ''2024-02-29T23:59:58.000005''" by code_simp
  from to_json_time_field [OF h1 h2]
  obtain d where "to_json_dict ?c = Inr d"
    and "getitem d ''time'' = Inr (PStr (isoformat (cp_time ?c)))"
    by blast
  then have "to_json_dict ?c = Inr d \<and> getitem d ''time'' = Inr (PStr ''2024-02-29T23:59:58.000005'')"
    using i by simp
  with h2 show ?thesis by auto
qed

section \<open>Directories with repeated child names\<close>

declare TreeNode_from_dict.simps [simp del] DirectoryNode_from_dict.simps [simp del]

lemma find_append_local:
  "List.find P (xs @ ys) = (case List.find P xs of None \<Rightarrow> List.find P ys | Some x \<Rightarrow> Some x)"
  by (induction xs) simp_all

lemma last_entry_named_Cons:
  "last_entry_named k (c # cs) =
     (case last_entry_named k cs of
        None \<Rightarrow> if getitem c ''name'' = Inr k then Some c else None
      | Some x \<Rightarrow> Some x)"
  by (simp add: last_entry_named_def find_append_local split: option.splits)

lemma children_from_dicts_lookup:
  "children_from_dicts cs acc = Inr ch \<Longrightarrow>
     map_of ch k =
       (case last_entry_named k cs of
          None \<Rightarrow> map_of acc k
        | Some c \<Rightarrow> (case TreeNode_from_dict c of Inr v \<Rightarrow> Some v | Inl e \<Rightarrow> None))"
proof (induction cs arbitrary: acc)
  case Nil
  then show ?case by (simp add: last_entry_named_def)
next
  case (Cons c cs)
  from Cons.prems obtain k0 v0 where c: "getitem c ''name'' = Inr k0"
    "TreeNode_from_dict c = Inr v0" "hashable k0"
    and rest: "children_from_dicts cs (dict_setitem k0 v0 acc) = Inr ch"
    by (auto split: sum.splits if_splits)
  from Cons.IH [OF rest] c show ?case
    by (auto simp: last_entry_named_Cons dict_setitem_def update_conv' split: option.splits)
qed

lemma children_from_dicts_distinct:
  "children_from_dicts cs acc = Inr ch \<Longrightarrow> distinct (map fst acc) \<Longrightarrow> distinct (map fst ch)"
proof (induction cs arbitrary: acc)
  case Nil
  then show ?case by simp
next
  case (Cons c cs)
  from Cons.prems(1) obtain k0 v0
    where rest: "children_from_dicts cs (dict_setitem k0 v0 acc) = Inr ch"
    by (auto split: sum.splits if_splits)
  from Cons.prems(2) have "distinct (map fst (dict_setitem k0 v0 acc))"
    by (simp add: dict_setitem_def distinct_update)
  with Cons.IH [OF rest] show ?case .
qed

lemma children_from_dicts_succeeds:
  "\<forall>c\<in>set cs. \<exists>k v. getitem c ''name'' = Inr k \<and> hashable k \<and> TreeNode_from_dict c = Inr v \<Longrightarrow>
     \<exists>ch. children_from_dicts cs acc = Inr ch"
  by (induction cs arbitrary: acc) auto

text \<open>
  Claim C10. For a serialized directory whose list of children has entries with the same
  name, \<open>DirectoryNode.from_dict\<close> keeps under that name only the child built from the
  last such entry; the keys of the resulting dictionary are pairwise different and the
  repetition raises no error: when every entry of the list can be parsed on its own and
  has a hashable name, the directory is parsed, and its dictionary maps every name to the
  node of the last entry of that name.
\<close>

theorem DirectoryNode_from_dict_duplicate_names:
  assumes "getitem d ''name'' = Inr name" and "getitem d ''checksum'' = Inr checksum"
    and "getitem d ''permissions'' = Inr permissions"
    and "getitem d ''children'' = Inr (PList cs)"
    and "\<forall>c\<in>set cs. \<exists>k v. getitem c ''name'' = Inr k \<and> hashable k \<and> TreeNode_from_dict c = Inr v"
  shows "\<exists>children.
           DirectoryNode_from_dict d = Inr (DirectoryNode name checksum permissions children)
           \<and> distinct (map fst children)
           \<and> (\<forall>k. map_of children k =
                 (case last_entry_named k cs of
                    None \<Rightarrow> None
                  | Some c \<Rightarrow> (case TreeNode_from_dict c of Inr v \<Rightarrow> Some v | Inl e \<Rightarrow> None)))"
proof -
  from children_from_dicts_succeeds [OF assms(5)]
  obtain ch where ch: "children_from_dicts cs [] = Inr ch" by blast
  have "DirectoryNode_from_dict d = Inr (DirectoryNode name checksum permissions ch)"
    using assms(1-4) ch by (simp add: DirectoryNode_from_dict.simps)
  moreover have "distinct (map fst ch)"
    using children_from_dicts_distinct [OF ch] by simp
  moreover have "map_of ch k =
      (case last_entry_named k cs of
         None \<Rightarrow> None
       | Some c \<Rightarrow> (case TreeNode_from_dict c of Inr v \<Rightarrow> Some v | Inl e \<Rightarrow> None))" for k
    using children_from_dicts_lookup [OF ch, of k] by (simp split: option.splits)
  ultimately show ?thesis by blast
qed


theorem DirectoryNode_from_dict_duplicate_names_witness:
  "\<exists>children.
     DirectoryNode_from_dict
       (PDict [(''name'', PStr ''d''), (''checksum'', PStr ''c0''), (''permissions'', PInt 493),
               (''children'',
                PList [PDict [(''name'', PStr ''a''), (''checksum'', PStr ''c1''),
                              (''permissions'', PInt 420), (''type'', PStr ''file'')],
                       PDict [(''name'', PStr ''b''), (''checksum'', PStr ''c2''),
                              (''permissions'', PInt 420), (''type'', PStr ''file'')],
                       PDict [(''name'', PStr ''a''), (''checksum'', PStr ''c3''),
                              (''permissions'', PInt 511), (''type'', PStr ''symlink'')]]),
               (''type'', PStr ''directory'')])
       = Inr (DirectoryNode (PStr ''d'') (PStr ''c0'') (PInt 493) children)
     \<and> distinct (map fst children)
     \<and> map_of children (PStr ''a'')
         = Some (SymlinkNode (PStr ''a'') (PStr ''c3'') (PInt 511))
     \<and> map_of children (PStr ''b'')
         = Some (FileNode (PStr ''b'') (PStr ''c2'') (PInt 420))"
proof -
  let ?a1 = "PDict [(''name'', PStr ''a''), (''checksum'', PStr ''c1''),
                    (''permissions'', PInt 420), (''type'', PStr ''file'')]"
  let ?b = "PDict [(''name'', PStr ''b''), (''checksum'', PStr ''c2''),
                   (''permissions'', PInt 420), (''type'', PStr ''file'')]"
  let ?a2 = "PDict [(''name'', PStr ''a''), (''checksum'', PStr ''c3''),
                    (''permissions'', PInt 511), (''type'', PStr ''symlink'')]"
  let ?cs = "[?a1, ?b, ?a2]"
  let ?d = "PDict [(''name'', PStr ''d''), (''checksum'', PStr ''c0''),
                   (''permissions'', PInt 493), (''children'', PList ?cs),
                   (''type'', PStr ''directory'')]"
  have p: "TreeNode_from_dict ?a1 = Inr (FileNode (PStr ''a'') (PStr ''c1'') (PInt 420))"
    "TreeNode_from_dict ?b = Inr (FileNode (PStr ''b'') (PStr ''c2'') (PInt 420))"
    "TreeNode_from_dict ?a2 = Inr (SymlinkNode (PStr ''a'') (PStr ''c3'') (PInt 511))"
    by (simp_all add: TreeNode_from_dict.simps FileNode_from_dict_def SymlinkNode_from_dict_def)
  have h: "\<forall>c\<in>set ?cs. \<exists>k v. getitem c ''name'' = Inr k \<and> hashable k \<and> TreeNode_from_dict c = Inr v"
    using p by simp
  have l: "last_entry_named (PStr ''a'') ?cs = Some ?a2" "last_entry_named (PStr ''b'') ?cs = Some ?b"
    by (simp_all add: last_entry_named_def)
  from DirectoryNode_from_dict_duplicate_names
         [where d = ?d and name = "PStr ''d''" and checksum = "PStr ''c0''"
            and permissions = "PInt 493" and cs = ?cs, OF _ _ _ _ h]
  obtain children
    where "DirectoryNode_from_dict ?d = Inr (DirectoryNode (PStr ''d'') (PStr ''c0'') (PInt 493) children)"
      and "distinct (map fst children)"
      and "\<forall>k. map_of children k =
             (case last_entry_named k ?cs of
                None \<Rightarrow> None
              | Some c \<Rightarrow> (case TreeNode_from_dict c of Inr v \<Rightarrow> Some v | Inl e \<Rightarrow> None))"
    by auto
  then show ?thesis
    using l p by (intro exI [of _ children]) simp
qed

section \<open>Serializing and parsing a node\<close>

lemma getitem_to_dict_name: "getitem (to_dict n) ''name'' = Inr (node_name n)"
  by (cases n) simp_all

lemma update_fresh: "k \<notin> fst ` set al \<Longrightarrow> AList.update k v al = al @ [(k, v)]"
  by (induction al) auto

lemma children_round_trip:
  assumes "\<forall>kv\<in>set ch. hashable (fst kv) \<and> node_name (snd kv) = fst kv
             \<and> TreeNode_from_dict (to_dict (snd kv)) = Inr (snd kv)"
    and "distinct (map fst ch)"
    and "fst ` set ch \<inter> fst ` set acc = {}"
  shows "children_from_dicts (map (\<lambda>kv. to_dict (snd kv)) ch) acc = Inr (acc @ ch)"
  using assms
proof (induction ch arbitrary: acc)
  case Nil
  then show ?case by simp
next
  case (Cons kv ch)
  obtain k v where kv: "kv = (k, v)" by (cases kv)
  from Cons.prems(1) kv have c: "hashable k" "node_name v = k"
    "TreeNode_from_dict (to_dict v) = Inr v"
    by simp_all
  from Cons.prems(3) kv have fresh: "k \<notin> fst ` set acc" by auto
  then have upd: "dict_setitem k v acc = acc @ [(k, v)]"
    by (simp add: dict_setitem_def update_fresh)
  from Cons.prems(2,3) kv have "fst ` set ch \<inter> fst ` set (acc @ [(k, v)]) = {}"
    by auto
  with Cons.IH [of "acc @ [(k, v)]"] Cons.prems(1,2)
  have "children_from_dicts (map (\<lambda>kv. to_dict (snd kv)) ch) (acc @ [(k, v)])
          = Inr ((acc @ [(k, v)]) @ ch)"
    by simp
  with c upd kv show ?case
    by (simp add: getitem_to_dict_name)
qed

text \<open>
  Claim C3. For every tree node \<open>n\<close>, \<open>TreeNode.from_dict(n.to_dict())\<close> is a node with the
  same checksum, the same permissions and the same mapping from child names to children
  at every level.

  A node is taken as the data model has it: the dictionary of a directory maps the name
  of each child to the child. Then the result is the node itself, with its children in
  their original order.
\<close>

theorem from_dict_to_dict:
  "wf_node n \<Longrightarrow> TreeNode_from_dict (to_dict n) = Inr n"
proof (induction n rule: wf_node.induct)
  case (1 name checksum permissions children)
  from "1.prems" have d: "distinct (map fst children)"
    and a: "\<forall>kv\<in>set children. hashable (fst kv) \<and> node_name (snd kv) = fst kv \<and> wf_node (snd kv)"
    by (simp_all add: list_all_iff)
  with "1.IH" have "\<forall>kv\<in>set children. hashable (fst kv) \<and> node_name (snd kv) = fst kv
             \<and> TreeNode_from_dict (to_dict (snd kv)) = Inr (snd kv)"
    by simp
  from children_round_trip [OF this d, of "[]"]
  have "children_from_dicts (map (\<lambda>kv. to_dict (snd kv)) children) [] = Inr children"
    by simp
  then show ?case
    by (simp add: TreeNode_from_dict.simps DirectoryNode_from_dict.simps)
qed (simp_all add: TreeNode_from_dict.simps FileNode_from_dict_def SymlinkNode_from_dict_def)

theorem from_dict_to_dict_witness:
  "wf_node (DirectoryNode (PStr '''') (PStr ''c0'') (PInt 493)
             [(PStr ''b'', FileNode (PStr ''b'') (PStr ''c1'') (PInt 420)),
              (PStr ''a'', DirectoryNode (PStr ''a'') (PStr ''c2'') (PInt 448)
                             [(PStr ''l'', SymlinkNode (PStr ''l'') (PStr ''c3'') (PInt 511))])])
   \<and> TreeNode_from_dict
        (PDict [(''name'', PStr ''''), (''checksum'', PStr ''c0''), (''permissions'', PInt 493),
                (''children'',
                 PList [PDict [(''name'', PStr ''b''), (''checksum'', PStr ''c1''),
                               (''permissions'', PInt 420), (''type'', PStr ''file'')],
                        PDict [(''name'', PStr ''a''), (''checksum'', PStr ''c2''),
                               (''permissions'', PInt 448),
                               (''children'',
                                PList [PDict [(''name'', PStr ''l''), (''checksum'', PStr ''c3''),
                                              (''permissions'', PInt 511),
                                              (''type'', PStr ''symlink'')]]),
                               (''type'', PStr ''directory'')]]),
                (''type'', PStr ''directory'')])
       = Inr (DirectoryNode (PStr '''') (PStr ''c0'') (PInt 493)
               [(PStr ''b'', FileNode (PStr ''b'') (PStr ''c1'') (PInt 420)),
                (PStr ''a'', DirectoryNode (PStr ''a'') (PStr ''c2'') (PInt 448)
                               [(PStr ''l'', SymlinkNode (PStr ''l'') (PStr ''c3'') (PInt 511))])])"
proof -
  let ?n = "DirectoryNode (PStr '''') (PStr ''c0'') (PInt 493)
             [(PStr ''b'', FileNode (PStr ''b'') (PStr ''c1'') (PInt 420)),
              (PStr ''a'', DirectoryNode (PStr ''a'') (PStr ''c2'') (PInt 448)
                             [(PStr ''l'', SymlinkNode (PStr ''l'') (PStr ''c3'') (PInt 511))])]"
  have w: "wf_node ?n" by simp
  from from_dict_to_dict [OF w] w show ?thesis by simp
qed

text \<open>
  Every node that \<open>from_dict\<close> returns is such a node, and carries the name of the
  dictionary it was parsed from.
\<close>

lemma set_update_subset: "set (AList.update k v al) \<subseteq> insert (k, v) (set al)"
  by (induction al) auto

lemma wf_items_setitem:
  "wf_items acc \<Longrightarrow> hashable k \<Longrightarrow> node_name v = k \<Longrightarrow> wf_node v \<Longrightarrow>
     wf_items (dict_setitem k v acc)"
  using set_update_subset [of k v acc]
  by (auto simp: wf_items_def dict_setitem_def distinct_update list_all_iff)

lemma from_dict_wf_node:
  "TreeNode_from_dict d = Inr n \<longrightarrow> wf_node n \<and> getitem d ''name'' = Inr (node_name n)"
  "DirectoryNode_from_dict d' = Inr n' \<longrightarrow> wf_node n' \<and> getitem d' ''name'' = Inr (node_name n')"
  "children_from_dicts cs acc = Inr ch \<longrightarrow> wf_items acc \<longrightarrow> wf_items ch"
proof (induction d and d' and cs acc arbitrary: n and n' and ch
    rule: TreeNode_from_dict_DirectoryNode_from_dict_children_from_dicts.induct)
  case (1 d)
  show ?case
  proof
    assume r: "TreeNode_from_dict d = Inr n"
    then obtain t where t: "getitem d ''type'' = Inr t"
      by (auto simp: TreeNode_from_dict.simps split: sum.splits)
    show "wf_node n \<and> getitem d ''name'' = Inr (node_name n)"
    proof (cases "t = PStr ''directory''")
      case True
      with r t have "DirectoryNode_from_dict d = Inr n"
        by (simp add: TreeNode_from_dict.simps)
      with "1.IH" [OF t True] show ?thesis by simp
    next
      case False
      with r t show ?thesis
        by (auto simp: TreeNode_from_dict.simps FileNode_from_dict_def SymlinkNode_from_dict_def
            split: sum.splits if_splits)
    qed
  qed
next
  case (2 d)
  show ?case
  proof
    assume r: "DirectoryNode_from_dict d = Inr n'"
    then obtain name checksum permissions cs
      where g: "getitem d ''name'' = Inr name" "getitem d ''checksum'' = Inr checksum"
        "getitem d ''permissions'' = Inr permissions" "getitem d ''children'' = Inr cs"
      by (auto simp: DirectoryNode_from_dict.simps split: sum.splits)
    show "wf_node n' \<and> getitem d ''name'' = Inr (node_name n')"
    proof (cases cs)
      case (PList children)
      with r g obtain ch where ch: "children_from_dicts children [] = Inr ch"
        and n': "n' = DirectoryNode name checksum permissions ch"
        by (auto simp: DirectoryNode_from_dict.simps split: sum.splits)
      have "wf_items []" by (simp add: wf_items_def)
      with "2.IH" [OF g PList] ch have "wf_items ch" by simp
      with n' g show ?thesis by (simp add: wf_items_def)
    qed (use r g in \<open>auto simp: DirectoryNode_from_dict.simps split: if_splits\<close>)
  qed
next
  case (3 acc)
  show ?case by simp
next
  case (4 child children acc)
  show ?case
  proof (intro impI)
    assume r: "children_from_dicts (child # children) acc = Inr ch" and w: "wf_items acc"
    from r obtain k v where c: "getitem child ''name'' = Inr k" "TreeNode_from_dict child = Inr v"
      "hashable k" and rest: "children_from_dicts children (dict_setitem k v acc) = Inr ch"
      by (auto split: sum.splits if_splits)
    from "4.IH"(1) [OF c(1)] c(2) have v: "wf_node v" "getitem child ''name'' = Inr (node_name v)"
      by simp_all
    with c(1) have "node_name v = k" by simp
    with w c(3) v(1) have "wf_items (dict_setitem k v acc)" by (simp add: wf_items_setitem)
    with "4.IH"(2) [OF c(1,2)] c(3) rest show "wf_items ch" by simp
  qed
qed

section \<open>Traversal of a checkpoint\<close>

lemma append_children_str_keys:
  "list_all (\<lambda>kv. is_str (fst kv)) items \<Longrightarrow>
     append_children p items stack =
       Inr (stack @ map (\<lambda>kv. (Some (snd kv), os_path_join p (str_of (fst kv)))) items)"
proof (induction p items stack rule: append_children.induct)
  case (1 current_path stack)
  show ?case by simp
next
  case (2 current_path child_name child_node items stack)
  from "2.prems" obtain k where k: "child_name = PStr k" and rest: "list_all (\<lambda>kv. is_str (fst kv)) items"
    by (cases child_name) simp_all
  from "2.IH" [of "os_path_join current_path k"] k rest show ?case by simp
qed

lemma walk_entry_children:
  "walk_entry (node, p) =
     (node, p) # concat (rev (map (\<lambda>kv. walk (snd kv) (os_path_join p (str_of (fst kv))))
                               (children_of node)))"
  by (cases "(node, p)" rule: walk_entry.cases; cases node rule: children_of.cases) auto

lemma entry_ok_children:
  "entry_ok (node, p) \<Longrightarrow>
     list_all (\<lambda>kv. is_str (fst kv) \<and> str_keys (snd kv)) (children_of node)"
  by (cases "(node, p)" rule: entry_ok.cases; cases node rule: children_of.cases) auto

lemma iter_loop_walk:
  "list_all entry_ok stack \<Longrightarrow> iter_loop stack = (concat (map walk_entry (rev stack)), None)"
proof (induction stack rule: iter_loop.induct)
  case (1 stack)
  show ?case
  proof (cases "stack = []")
    case True
    then show ?thesis by (simp add: iter_loop.simps)
  next
    case False
    obtain node p where l: "last stack = (node, p)" by (cases "last stack")
    have "butlast stack @ [last stack] = stack" using False by simp
    with l have s: "stack = butlast stack @ [(node, p)]" by simp
    have "list_all entry_ok (butlast stack @ [(node, p)])"
      by (subst s [symmetric]) (rule "1.prems")
    then have ok: "entry_ok (node, p)" "list_all entry_ok (butlast stack)"
      by simp_all
    let ?new = "map (\<lambda>kv. (Some (snd kv), os_path_join p (str_of (fst kv)))) (children_of node)"
    from entry_ok_children [OF ok(1)]
    have keys: "list_all (\<lambda>kv. is_str (fst kv)) (children_of node)"
      and sub: "list_all (\<lambda>kv. str_keys (snd kv)) (children_of node)"
      by (simp_all add: list_all_iff)
    have app: "append_children p (children_of node) (butlast stack) = Inr (butlast stack @ ?new)"
      using keys by (rule append_children_str_keys)
    have "list_all entry_ok ?new"
      using sub by (simp add: list_all_iff)
    with ok(2) have "list_all entry_ok (butlast stack @ ?new)" by simp
    with "1.IH" [OF False l [symmetric] refl app]
    have ih: "iter_loop (butlast stack @ ?new)
                = (concat (map walk_entry (rev (butlast stack @ ?new))), None)"
      by simp
    have "iter_loop stack = ((node, p) # concat (map walk_entry (rev (butlast stack @ ?new))), None)"
      using False l app ih by (subst iter_loop.simps) simp
    also have "(node, p) # concat (map walk_entry (rev (butlast stack @ ?new)))
        = walk_entry (node, p) @ concat (map walk_entry (rev (butlast stack)))"
      by (simp add: walk_entry_children [of node p] rev_map comp_def)
    also have "\<dots> = concat (map walk_entry (rev stack))"
      by (subst (2) s) simp
    finally show ?thesis .
  qed
qed


lemma walk_length: "length (walk node path) = tree_size node"
proof (induction node path rule: walk.induct)
  case (1 name checksum permissions children path)
  have "map (\<lambda>kv. length (walk (snd kv) (os_path_join path (str_of (fst kv))))) children
          = map (\<lambda>kv. tree_size (snd kv)) children"
    by (rule map_cong) (simp_all add: "1.IH")
  then have "sum_list (map (\<lambda>kv. length (walk (snd kv) (os_path_join path (str_of (fst kv))))) children)
          = sum_list (map (\<lambda>kv. tree_size (snd kv)) children)"
    by (rule arg_cong)
  then show ?case
    by (simp add: length_concat rev_map [symmetric] sum_list_rev comp_def)
qed simp_all

text \<open>
  Claim C5. \<open>iter()\<close> yields each node of the tree exactly once as a pair of the node and
  its relative path, depth first and root first, and among the children of a directory the
  order follows the insertion order of the children dictionary.

  The children are pushed on the stack in insertion order and popped from its end, so the
  child inserted last is yielded first: of the children \<open>a\<close> and \<open>b\<close>, inserted in this
  order, \<open>b\<close> is yielded before \<open>a\<close>.
\<close>

theorem Checkpoint_iter_reverses_siblings:
  "Checkpoint_iter
     \<lparr>cp_root = Some (DirectoryNode (PStr '''') (PStr ''c0'') (PInt 493)
                        [(PStr ''a'', FileNode (PStr ''a'') (PStr ''c1'') (PInt 420)),
                         (PStr ''b'', FileNode (PStr ''b'') (PStr ''c2'') (PInt 420))]),
      cp_time = \<lparr>year = 2024, month = 1, day = 1, hour = 0, minute = 0, second = 0,
                 microsecond = 0\<rparr>,
      cp_name = None\<rparr>
     = ([(Some (DirectoryNode (PStr '''') (PStr ''c0'') (PInt 493)
                 [(PStr ''a'', FileNode (PStr ''a'') (PStr ''c1'') (PInt 420)),
                  (PStr ''b'', FileNode (PStr ''b'') (PStr ''c2'') (PInt 420))]), ''''),
         (Some (FileNode (PStr ''b'') (PStr ''c2'') (PInt 420)), ''b''),
         (Some (FileNode (PStr ''a'') (PStr ''c1'') (PInt 420)), ''a'')],
        None)"
  by code_simp

text \<open>
  Claim C5, as the code has it. For every checkpoint whose directories have strings as
  keys (a name that is not a string cannot be joined to a path), \<open>iter()\<close> ends without
  an exception and yields each node of the tree exactly once as a pair of the node and
  its relative path, the root first with the empty path, depth first: a directory is
  followed by the whole subtrees of its children, taken in the reverse of the insertion
  order of its children dictionary. The number of pairs is the number of nodes.
\<close>

theorem Checkpoint_iter_depth_first:
  assumes "case cp_root c of None \<Rightarrow> True | Some root \<Rightarrow> str_keys root"
  shows "Checkpoint_iter c = (walk_entry (cp_root c, ''''), None)
       \<and> hd (fst (Checkpoint_iter c)) = (cp_root c, '''')
       \<and> length (fst (Checkpoint_iter c))
           = (case cp_root c of None \<Rightarrow> 1 | Some root \<Rightarrow> tree_size root)"
proof -
  from assms have "list_all entry_ok [(cp_root c, '''')]"
    by (cases "cp_root c") simp_all
  then have i: "Checkpoint_iter c = (walk_entry (cp_root c, ''''), None)"
    by (simp add: Checkpoint_iter_def iter_loop_walk)
  have h: "hd (walk_entry (cp_root c, '''')) = (cp_root c, '''')"
    by (simp add: walk_entry_children)
  have l: "length (walk_entry (cp_root c, ''''))
             = (case cp_root c of None \<Rightarrow> 1 | Some root \<Rightarrow> tree_size root)"
    by (cases "cp_root c") (simp_all add: walk_length)
  from i h l show ?thesis by simp
qed

theorem Checkpoint_iter_depth_first_witness:
  "str_keys (DirectoryNode (PStr '''') (PStr ''c0'') (PInt 493)
              [(PStr ''a'', DirectoryNode (PStr ''a'') (PStr ''c1'') (PInt 448)
                              [(PStr ''x'', FileNode (PStr ''x'') (PStr ''c3'') (PInt 420)),
                               (PStr ''y'', SymlinkNode (PStr ''y'') (PStr ''c4'') (PInt 511))]),
               (PStr ''b'', FileNode (PStr ''b'') (PStr ''c2'') (PInt 420))])
   \<and> map snd (fst (Checkpoint_iter
        \<lparr>cp_root = Some (DirectoryNode (PStr '''') (PStr ''c0'') (PInt 493)
              [(PStr ''a'', DirectoryNode (PStr ''a'') (PStr ''c1'') (PInt 448)
                              [(PStr ''x'', FileNode (PStr ''x'') (PStr ''c3'') (PInt 420)),
                               (PStr ''y'', SymlinkNode (PStr ''y'') (PStr ''c4'') (PInt 511))]),
               (PStr ''b'', FileNode (PStr ''b'') (PStr ''c2'') (PInt 420))]),
         cp_time = \<lparr>year = 2024, month = 1, day = 1, hour = 0, minute = 0, second = 0,
                    microsecond = 0\<rparr>,
         cp_name = None\<rparr>))
       = ['''', ''b'', ''a'', ''a/y'', ''a/x'']
   \<and> snd (Checkpoint_iter
        \<lparr>cp_root = Some (DirectoryNode (PStr '''') (PStr ''c0'') (PInt 493)
              [(PStr ''a'', DirectoryNode (PStr ''a'') (PStr ''c1'') (PInt 448)
                              [(PStr ''x'', FileNode (PStr ''x'') (PStr ''c3'') (PInt 420)),
                               (PStr ''y'', SymlinkNode (PStr ''y'') (PStr ''c4'') (PInt 511))]),
               (PStr ''b'', FileNode (PStr ''b'') (PStr ''c2'') (PInt 420))]),
         cp_time = \<lparr>year = 2024, month = 1, day = 1, hour = 0, minute = 0, second = 0,
                    microsecond = 0\<rparr>,
         cp_name = None\<rparr>) = None"
proof -
  let ?r = "DirectoryNode (PStr '''') (PStr ''c0'') (PInt 493)
              [(PStr ''a'', DirectoryNode (PStr ''a'') (PStr ''c1'') (PInt 448)
                              [(PStr ''x'', FileNode (PStr ''x'') (PStr ''c3'') (PInt 420)),
                               (PStr ''y'', SymlinkNode (PStr ''y'') (PStr ''c4'') (PInt 511))]),
               (PStr ''b'', FileNode (PStr ''b'') (PStr ''c2'') (PInt 420))]"
  let ?c = "\<lparr>cp_root = Some ?r,
            cp_time = \<lparr>year = 2024, month = 1, day = 1, hour = 0, minute = 0, second = 0,
                       microsecond = 0\<rparr>,
            cp_name = None\<rparr>"
  have k: "str_keys ?r" by simp
  then have h: "case cp_root ?c of None \<Rightarrow> True | Some root \<Rightarrow> str_keys root" by simp
  have "Checkpoint_iter ?c = (walk_entry (cp_root ?c, ''''), None)"
    using Checkpoint_iter_depth_first [OF h] by (rule conjunct1)
  then have "Checkpoint_iter ?c = (walk ?r '''', None)" by simp
  moreover have "map snd (walk ?r '''') = ['''', ''b'', ''a'', ''a/y'', ''a/x'']"
    by (simp add: os_path_join_def)
  ultimately show ?thesis using k by (simp add: os_path_join_def)
qed

section \<open>The checksum of a directory\<close>

declare TreeNode_build_node.simps [simp del] DirectoryNode_build_node.simps [simp del]

lemma map_insort_key: "map f (insort_key f x ys) = insort (f x) (map f ys)"
  by (induction ys) simp_all

lemma map_sort_key: "map f (sort_key f xs) = sort (map f xs)"
  by (induction xs) (simp_all add: map_insort_key)

lemma sorted_values_lookup:
  assumes "distinct (map fst xs)"
  shows "map snd (sort_key fst xs) = map (\<lambda>k. the (map_of xs k)) (sort (map fst xs))"
proof -
  have "map (\<lambda>k. the (map_of xs k)) (sort (map fst xs))
          = map (\<lambda>kv. the (map_of xs (fst kv))) (sort_key fst xs)"
    by (simp add: map_sort_key [symmetric] comp_def)
  also have "\<dots> = map snd (sort_key fst xs)"
  proof (rule map_cong [OF refl])
    fix kv assume "kv \<in> set (sort_key fst xs)"
    then have "(fst kv, snd kv) \<in> set xs" by simp
    with assms have "map_of xs (fst kv) = Some (snd kv)" by (rule map_of_is_SomeI)
    then show "the (map_of xs (fst kv)) = snd kv" by simp
  qed
  finally show ?thesis by simp
qed

lemma update_all_strings:
  "list_all is_str cs \<Longrightarrow> update_all message cs = Inr (message @ concat (map str_of cs))"
proof (induction cs arbitrary: message)
  case Nil
  show ?case by simp
next
  case (Cons c cs)
  then obtain s where "c = PStr s" by (cases c) simp_all
  with Cons show ?case by (simp add: xxh64_update_def)
qed

lemma dict_ok_lookup:
  assumes "dict_ok ch" and "k \<in> fst ` set ch"
  shows "\<exists>node. map_of ch k = Some (Some node) \<and> is_str (node_checksum node)
           \<and> map_of (digests_of ch) k = Some (str_of (node_checksum node))"
proof -
  from assms(2) obtain v where kv: "(k, v) \<in> set ch" by auto
  with assms(1) have m: "map_of ch k = Some v"
    by (simp add: dict_ok_def)
  from kv assms(1) obtain node where v: "v = Some node" "is_str (node_checksum node)"
    by (auto simp: dict_ok_def list_all_iff split: option.splits)
  have "map_of (digests_of ch) k
          = map_option (\<lambda>v. case v of None \<Rightarrow> [] | Some node \<Rightarrow> str_of (node_checksum node)) (map_of ch k)"
    unfolding digests_of_def by (induction ch) auto
  with m v show ?thesis by simp
qed

lemma child_checksums_ok:
  assumes "dict_ok ch" and "set ks \<subseteq> fst ` set ch"
  shows "\<exists>cs. child_checksums ch ks = Inr cs \<and> list_all is_str cs
           \<and> map str_of cs = map (\<lambda>k. the (map_of (digests_of ch) k)) ks"
  using assms(2)
proof (induction ks)
  case Nil
  show ?case by simp
next
  case (Cons k ks)
  then obtain cs where cs: "child_checksums ch ks = Inr cs" "list_all is_str cs"
    "map str_of cs = map (\<lambda>k. the (map_of (digests_of ch) k)) ks"
    by auto
  from Cons.prems have "k \<in> fst ` set ch" by simp
  from dict_ok_lookup [OF assms(1) this] obtain node
    where "map_of ch k = Some (Some node)" "is_str (node_checksum node)"
      "map_of (digests_of ch) k = Some (str_of (node_checksum node))"
    by blast
  with cs show ?case by simp
qed

lemma digests_of_keys: "map fst (digests_of ch) = map fst ch"
  by (simp add: digests_of_def comp_def)

lemma directory_checksum_ok:
  assumes "dict_ok ch"
  shows "directory_checksum H ch = Inr (H (concat (map snd (sort_key fst (digests_of ch)))))"
proof -
  have "set (sort (map fst ch)) \<subseteq> fst ` set ch" by simp
  from child_checksums_ok [OF assms this] obtain cs
    where cs: "child_checksums ch (sort (map fst ch)) = Inr cs" "list_all is_str cs"
      "map str_of cs = map (\<lambda>k. the (map_of (digests_of ch) k)) (sort (map fst ch))"
    by blast
  from assms have "distinct (map fst (digests_of ch))"
    by (simp add: digests_of_keys dict_ok_def)
  from sorted_values_lookup [OF this] cs(3)
  have "map str_of cs = map snd (sort_key fst (digests_of ch))"
    by (simp add: digests_of_keys)
  with cs(1,2) show ?thesis
    by (simp add: directory_checksum_def update_all_strings xxh64_new_def hexdigest_def)
qed

lemma dict_ok_setitem:
  assumes "dict_ok ch" and "node_name node = PStr k" and "is_str (node_checksum node)"
    and "wf_node node" and "str_keys node"
  shows "dict_ok (dict_setitem k (Some node) ch)"
  using assms set_update_subset [of k "Some node" ch]
  by (auto simp: dict_ok_def dict_setitem_def distinct_update list_all_iff)

lemma digests_of_setitem:
  "digests_of (dict_setitem k v ch)
     = dict_setitem k (case v of None \<Rightarrow> [] | Some node \<Rightarrow> str_of (node_checksum node))
         (digests_of ch)"
  by (induction ch) (auto simp: digests_of_def dict_setitem_def)

lemma children_items_ok:
  "dict_ok ch \<Longrightarrow> children_items ch = map (\<lambda>kv. (PStr (fst kv), the (snd kv))) ch"
proof (induction ch rule: children_items.induct)
  case (2 k child kvs)
  then have "dict_ok kvs" by (simp add: dict_ok_def)
  with 2 show ?case by simp
qed (simp_all add: dict_ok_def)

lemma directory_node_ok:
  assumes "dict_ok ch"
  shows "wf_node (DirectoryNode name checksum permissions (children_items ch))"
    and "str_keys (DirectoryNode name checksum permissions (children_items ch))"
proof -
  have inj: "inj PStr" by (simp add: inj_def)
  have "map fst (map (\<lambda>kv. (PStr (fst kv), the (snd kv))) ch) = map PStr (map fst ch)"
    by simp
  with assms inj have "distinct (map fst (map (\<lambda>kv. (PStr (fst kv), the (snd kv))) ch))"
    by (simp only: dict_ok_def distinct_map) (auto intro: inj_on_subset)
  with assms show "wf_node (DirectoryNode name checksum permissions (children_items ch))"
    by (auto simp: children_items_ok dict_ok_def list_all_iff split: option.splits)
  from assms show "str_keys (DirectoryNode name checksum permissions (children_items ch))"
    by (auto simp: children_items_ok dict_ok_def list_all_iff split: option.splits)
qed

lemma accessible_Directory:
  "accessible (Directory who mode listing)
     \<longleftrightarrow> may_read who mode \<and> accessible_children (may_search who mode) listing"
  by (simp add: accessible_children_def)

lemma accessible_children_Cons:
  "accessible_children search ((child_name, child) # listing) \<longleftrightarrow>
     (child_isfile search child \<or> child_isdir search child \<longrightarrow> accessible child)
     \<and> accessible_children search listing"
  by (simp add: accessible_children_def)

lemma accessible_children_Nil: "accessible_children search []"
  by (simp add: accessible_children_def)

text \<open>
  What the builder returns. It returns a result exactly when the process has the access
  the build asks for, and raises otherwise. Then an entry that is neither link, file nor
  directory gives \<open>None\<close>, any other entry a node with the name asked for, the digest of
  the entry as checksum and the permission bits of its mode; no child of a directory is
  \<open>None\<close>.
\<close>

lemma build_node_result:
  "(accessible e \<longrightarrow>
      (\<exists>out r. TreeNode_build_node H path e name = (out, Inr r)
         \<and> (case r of
               None \<Rightarrow> \<not> islink e \<and> \<not> isfile e \<and> \<not> isdir e
             | Some node \<Rightarrow> (islink e \<or> isfile e \<or> isdir e) \<and> built_from H e name node)))
   \<and> (\<not> accessible e \<longrightarrow> (\<exists>out err. TreeNode_build_node H path e name = (out, Inl err)))"
  "(accessible (Directory who mode listing) \<longrightarrow>
      (\<exists>out ch. build_children H path (may_search who mode) listing [] = (out, Inr ch)
         \<and> dict_ok ch
         \<and> digests_of ch = children_digests H (may_search who mode) listing []
         \<and> DirectoryNode_build_node H path who mode listing name
             = (out, Inr (DirectoryNode (PStr name) (PStr (digest_of H (Directory who mode listing)))
                            (PInt (int (S_IMODE mode))) (children_items ch)))))
   \<and> (\<not> accessible (Directory who mode listing) \<longrightarrow>
        (\<exists>out err. DirectoryNode_build_node H path who mode listing name = (out, Inl err)))"
  "dict_ok children \<longrightarrow>
     (accessible_children search listing \<longrightarrow>
        (\<exists>out ch. build_children H path search listing children = (out, Inr ch) \<and> dict_ok ch
           \<and> digests_of ch = children_digests H search listing (digests_of children)))
     \<and> (\<not> accessible_children search listing \<longrightarrow>
          (\<exists>out err. build_children H path search listing children = (out, Inl err)))"
proof (induction H path e name and H path who mode listing name
    and H path search listing children
    rule: TreeNode_build_node_DirectoryNode_build_node_build_children.induct)
  case (1 H path e name)
  show ?case
  proof (cases e)
    case (RegularFile who m content)
    then show ?thesis
      by (simp add: TreeNode_build_node.simps FileNode_build_node_RegularFile built_from_def)
  next
    case (Symlink m target resolves)
    then show ?thesis
      by (simp add: TreeNode_build_node.simps SymlinkNode_build_node_Symlink built_from_def
           del: valid_utf8.simps)
  next
    case (Directory who m listing)
    show ?thesis
    proof (cases "accessible e")
      case True
      with Directory "1.IH" [of who m listing] obtain out ch
        where "dict_ok ch"
          and "DirectoryNode_build_node H path who m listing name
            = (out, Inr (DirectoryNode (PStr name) (PStr (digest_of H (Directory who m listing)))
                           (PInt (int (S_IMODE m))) (children_items ch)))"
        by auto
      with True Directory directory_node_ok [OF \<open>dict_ok ch\<close>] show ?thesis
        by (simp add: TreeNode_build_node.simps built_from_def del: accessible.simps)
    next
      case False
      with Directory "1.IH" [of who m listing] obtain out err
        where "DirectoryNode_build_node H path who m listing name = (out, Inl err)"
        by auto
      with False Directory show ?thesis
        by (simp add: TreeNode_build_node.simps del: accessible.simps)
    qed
  next
    case (Special m)
    then show ?thesis
      by (simp add: TreeNode_build_node.simps)
  qed
next
  case (2 H path who mode listing name)
  have ok0: "dict_ok []" by (simp add: dict_ok_def)
  show ?case
  proof (cases "may_read who mode")
    case False
    then show ?thesis
      by (simp add: DirectoryNode_build_node.simps)
  next
    case True
    note ih = "2.IH" [OF refl, simplified, OF True]
    show ?thesis
    proof (cases "accessible_children (may_search who mode) listing")
      case acc: True
      with ih ok0 obtain out ch
        where b: "build_children H path (may_search who mode) listing [] = (out, Inr ch)"
          and ok: "dict_ok ch"
          and d: "digests_of ch = children_digests H (may_search who mode) listing (digests_of [])"
        by auto
      from directory_checksum_ok [OF ok, of H] d
      have c: "directory_checksum H ch = Inr (digest_of H (Directory who mode listing))"
        by (simp add: digests_of_def)
      from b c ok d True acc show ?thesis
        by (simp add: DirectoryNode_build_node.simps digests_of_def accessible_Directory
              del: accessible.simps)
    next
      case nacc: False
      with ih ok0 obtain out err
        where "build_children H path (may_search who mode) listing [] = (out, Inl err)"
        by auto
      with True nacc show ?thesis
        by (simp add: DirectoryNode_build_node.simps accessible_Directory del: accessible.simps)
    qed
  qed
next
  case (3 H path search children)
  show ?case by (simp add: accessible_children_Nil)
next
  case (4 H path search child_name child listing children)
  show ?case
  proof (intro impI)
    assume ok: "dict_ok children"
    show "(accessible_children search ((child_name, child) # listing) \<longrightarrow>
            (\<exists>out ch. build_children H path search ((child_name, child) # listing) children
                 = (out, Inr ch) \<and> dict_ok ch
               \<and> digests_of ch
                   = children_digests H search ((child_name, child) # listing) (digests_of children)))
          \<and> (\<not> accessible_children search ((child_name, child) # listing) \<longrightarrow>
               (\<exists>out err. build_children H path search ((child_name, child) # listing) children
                  = (out, Inl err)))"
    proof (cases "\<not> child_isfile search child \<and> \<not> child_isdir search child")
      case True
      from "4.IH"(1) [OF refl True] ok
      have "(accessible_children search listing \<longrightarrow>
              (\<exists>out ch. build_children H path search listing children = (out, Inr ch) \<and> dict_ok ch
                 \<and> digests_of ch = children_digests H search listing (digests_of children)))
            \<and> (\<not> accessible_children search listing \<longrightarrow>
                 (\<exists>out err. build_children H path search listing children = (out, Inl err)))"
        by simp
      with True show ?thesis
        by (cases "accessible_children search listing")
           (auto simp: accessible_children_Cons Let_def)
    next
      case False
      then have kind: "islink child \<or> isfile child \<or> isdir child"
        by (auto simp: child_isfile_def child_isdir_def)
      note t = "4.IH"(2) [OF refl False]
      show ?thesis
      proof (cases "accessible child")
        case nacc: False
        with t obtain out err
          where "TreeNode_build_node H (os_path_join path child_name) child child_name
                   = (out, Inl err)"
          by auto
        with nacc False show ?thesis
          by (auto simp: accessible_children_Cons Let_def)
      next
        case acc: True
        with t obtain out r
          where b: "TreeNode_build_node H (os_path_join path child_name) child child_name
                      = (out, Inr r)"
            and r: "case r of None \<Rightarrow> \<not> islink child \<and> \<not> isfile child \<and> \<not> isdir child
                    | Some node \<Rightarrow> (islink child \<or> isfile child \<or> isdir child)
                        \<and> built_from H child child_name node"
          by auto
        from r kind obtain node where n: "r = Some node" "built_from H child child_name node"
          by (cases r) auto
        from n(2) ok have ok': "dict_ok (dict_setitem child_name (Some node) children)"
          by (intro dict_ok_setitem) (simp_all add: built_from_def)
        from "4.IH"(3) [OF refl False b [symmetric] refl] n(1) ok'
        have rest: "(accessible_children search listing \<longrightarrow>
              (\<exists>out' ch. build_children H path search listing
                             (dict_setitem child_name (Some node) children) = (out', Inr ch)
                 \<and> dict_ok ch
                 \<and> digests_of ch = children_digests H search listing
                     (digests_of (dict_setitem child_name (Some node) children))))
            \<and> (\<not> accessible_children search listing \<longrightarrow>
                 (\<exists>out' err. build_children H path search listing
                                (dict_setitem child_name (Some node) children) = (out', Inl err)))"
          by simp
        have dg: "digests_of (dict_setitem child_name (Some node) children)
                    = dict_setitem child_name (digest_of H child) (digests_of children)"
          using n(2) by (simp add: digests_of_setitem built_from_def)
        show ?thesis
        proof (cases "accessible_children search listing")
          case True
          with rest obtain out' ch
            where "build_children H path search listing
                     (dict_setitem child_name (Some node) children) = (out', Inr ch)"
              and "dict_ok ch"
              and "digests_of ch = children_digests H search listing
                     (digests_of (dict_setitem child_name (Some node) children))"
            by auto
          with True acc b n(1) dg show ?thesis
            by (simp add: accessible_children_Cons Let_def False)
        next
          case nrest: False
          with rest obtain out' err
            where "build_children H path search listing
                     (dict_setitem child_name (Some node) children) = (out', Inl err)"
            by auto
          with nrest acc b n(1) show ?thesis
            by (simp add: accessible_children_Cons Let_def False)
        qed
      qed
    qed
  qed
qed

lemma insort_key_map:
  "insort_key f (g x) (map g ys) = map g (insort_key (\<lambda>y. f (g y)) x ys)"
  by (induction ys) simp_all

lemma sort_key_map: "sort_key f (map g xs) = map g (sort_key (\<lambda>y. f (g y)) xs)"
  by (induction xs) (simp_all add: insort_key_map)

lemma sorted_children_digests:
  assumes "dict_ok ch"
  shows "map (\<lambda>kv. str_of (node_checksum (snd kv)))
             (sort_key (\<lambda>kv. str_of (fst kv)) (children_items ch))
           = map snd (sort_key fst (digests_of ch))"
proof -
  have "map (\<lambda>kv. str_of (node_checksum (snd kv)))
             (sort_key (\<lambda>kv. str_of (fst kv)) (children_items ch))
          = map (\<lambda>kv. str_of (node_checksum (the (snd kv)))) (sort_key fst ch)"
    using assms by (simp add: children_items_ok sort_key_map comp_def)
  also have "\<dots> = map (\<lambda>kv. case snd kv of None \<Rightarrow> [] | Some node \<Rightarrow> str_of (node_checksum node))
                      (sort_key fst ch)"
  proof (rule map_cong [OF refl])
    fix kv assume "kv \<in> set (sort_key fst ch)"
    with assms obtain node where "snd kv = Some node"
      by (auto simp: dict_ok_def list_all_iff split: option.splits)
    then show "str_of (node_checksum (the (snd kv)))
                 = (case snd kv of None \<Rightarrow> [] | Some node \<Rightarrow> str_of (node_checksum node))"
      by simp
  qed
  also have "\<dots> = map snd (sort_key fst (digests_of ch))"
    by (simp add: digests_of_def sort_key_map comp_def)
  finally show ?thesis .
qed

lemma kept_entries_filter:
  "kept_entries who mode listing
     = filter (\<lambda>ne. child_isfile (may_search who mode) (snd ne)
                      \<or> child_isdir (may_search who mode) (snd ne)) listing"
  by (simp add: kept_entries_def child_isfile_def child_isdir_def)

lemma children_digests_distinct:
  assumes "distinct (map fst listing)" and "fst ` set listing \<inter> fst ` set acc = {}"
  shows "children_digests H search listing acc
           = acc @ map (\<lambda>ne. (fst ne, digest_of H (snd ne)))
                     (filter (\<lambda>ne. child_isfile search (snd ne) \<or> child_isdir search (snd ne))
                        listing)"
  using assms
proof (induction listing arbitrary: acc)
  case Nil
  show ?case by simp
next
  case (Cons ne listing)
  obtain n e where ne: "ne = (n, e)" by (cases ne)
  show ?case
  proof (cases "\<not> child_isfile search e \<and> \<not> child_isdir search e")
    case True
    from Cons.prems have "distinct (map fst listing)" "fst ` set listing \<inter> fst ` set acc = {}"
      by auto
    from Cons.IH [OF this] True ne show ?thesis by simp
  next
    case False
    from Cons.prems ne have fresh: "n \<notin> fst ` set acc" by auto
    then have upd: "dict_setitem n (digest_of H e) acc = acc @ [(n, digest_of H e)]"
      by (simp add: dict_setitem_def update_fresh)
    from Cons.prems ne have "distinct (map fst listing)"
      "fst ` set listing \<inter> fst ` set (acc @ [(n, digest_of H e)]) = {}"
      by auto
    from Cons.IH [OF this] upd ne show ?thesis
      by (simp add: False)
  qed
qed

lemma digest_of_Directory_distinct:
  assumes "distinct (map fst listing)"
  shows "children_digests H (may_search who mode) listing []
           = map (\<lambda>ne. (fst ne, digest_of H (snd ne))) (kept_entries who mode listing)"
    and "digest_of H (Directory who mode listing)
           = H (concat (map (\<lambda>ne. digest_of H (snd ne))
                          (sort_key fst (kept_entries who mode listing))))"
proof -
  show c: "children_digests H (may_search who mode) listing []
           = map (\<lambda>ne. (fst ne, digest_of H (snd ne))) (kept_entries who mode listing)"
    using assms by (simp add: children_digests_distinct kept_entries_filter)
  show "digest_of H (Directory who mode listing)
           = H (concat (map (\<lambda>ne. digest_of H (snd ne))
                          (sort_key fst (kept_entries who mode listing))))"
    by (simp add: c sort_key_map comp_def)
qed

lemma digest_of_content_digest:
  "unique_names e \<Longrightarrow> digest_of H e = content_digest H e"
proof (induction H e rule: content_digest.induct)
  case (3 H who mode listing)
  from "3.prems" have d: "distinct (map fst listing)"
    and u: "\<forall>ne\<in>set listing. unique_names (snd ne)"
    by (simp_all add: list_all_iff)
  have "map (\<lambda>ne. digest_of H (snd ne)) (sort_key fst (kept_entries who mode listing))
          = map (\<lambda>ne. content_digest H (snd ne)) (sort_key fst (kept_entries who mode listing))"
  proof (rule map_cong [OF refl])
    fix ne assume m: "ne \<in> set (sort_key fst (kept_entries who mode listing))"
    then have "ne \<in> set listing"
      by (auto simp: kept_entries_def split: if_splits)
    with u have "unique_names (snd ne)" by simp
    with "3.IH" [OF m] show "digest_of H (snd ne) = content_digest H (snd ne)" .
  qed
  with digest_of_Directory_distinct(2) [OF d, of H who mode] show ?case
    by simp
qed simp_all

lemma built_children:
  assumes "dict_ok ch"
    and "digests_of ch = map (\<lambda>ne. (fst ne, digest ne)) kept"
  shows "map (\<lambda>kv. (fst kv, node_name (snd kv), node_checksum (snd kv))) (children_items ch)
           = map (\<lambda>ne. (PStr (fst ne), PStr (fst ne), PStr (digest ne))) kept"
proof -
  have "map (\<lambda>kv. (fst kv, node_name (snd kv), node_checksum (snd kv))) (children_items ch)
          = map (\<lambda>kv. (PStr (fst kv), node_name (the (snd kv)), node_checksum (the (snd kv)))) ch"
    using assms(1) by (simp add: children_items_ok comp_def)
  also have "\<dots> = map (\<lambda>p. (PStr (fst p), PStr (fst p), PStr (snd p))) (digests_of ch)"
    unfolding digests_of_def map_map comp_def
  proof (rule map_cong [OF refl])
    fix kv assume "kv \<in> set ch"
    with assms(1) obtain node where n: "snd kv = Some node" "node_name node = PStr (fst kv)"
      "is_str (node_checksum node)"
      by (auto simp: dict_ok_def list_all_iff split: option.splits)
    from n(3) obtain c where "node_checksum node = PStr c"
      by (cases "node_checksum node") simp_all
    with n show "(PStr (fst kv), node_name (the (snd kv)), node_checksum (the (snd kv)))
        = (PStr (fst (fst kv, case snd kv of None \<Rightarrow> [] | Some node \<Rightarrow> str_of (node_checksum node))),
           PStr (fst (fst kv, case snd kv of None \<Rightarrow> [] | Some node \<Rightarrow> str_of (node_checksum node))),
           PStr (snd (fst kv, case snd kv of None \<Rightarrow> [] | Some node \<Rightarrow> str_of (node_checksum node))))"
      by simp
  qed
  also have "\<dots> = map (\<lambda>ne. (PStr (fst ne), PStr (fst ne), PStr (digest ne))) kept"
    by (simp add: assms(2) comp_def)
  finally show ?thesis .
qed

lemma permuted_listing:
  assumes "mset listing' = mset listing"
  shows "unique_names (Directory who mode listing') = unique_names (Directory who mode listing)"
    and "accessible (Directory who mode listing') = accessible (Directory who mode listing)"
proof -
  from assms have s: "set listing' = set listing" by (rule mset_eq_setD)
  from assms have "mset (map fst listing') = mset (map fst listing)" by simp
  then have "distinct (map fst listing') = distinct (map fst listing)"
    by (rule mset_eq_imp_distinct_iff)
  with s show "unique_names (Directory who mode listing') = unique_names (Directory who mode listing)"
    by (simp add: list_all_iff)
  from s show "accessible (Directory who mode listing') = accessible (Directory who mode listing)"
    by (simp add: list_all_iff)
qed

lemma content_digest_listing_order:
  assumes "distinct (map fst listing)" and "mset listing' = mset listing"
  shows "sort_key fst (kept_entries who mode listing') = sort_key fst (kept_entries who mode listing)"
proof -
  let ?K = "kept_entries who mode listing"
  let ?K' = "kept_entries who mode listing'"
  have m: "mset ?K' = mset (sort_key fst ?K)"
    using assms(2) by (simp add: kept_entries_def)
  from assms(2) have e: "mset (map fst listing') = mset (map fst listing)" by simp
  have d': "distinct (map fst listing')"
    using assms(1) mset_eq_imp_distinct_iff [OF e] by simp
  then have "distinct (map fst ?K')"
    by (simp add: kept_entries_def distinct_map_filter)
  then have i: "inj_on fst (set ?K')" by (simp only: distinct_map)
  have s: "sorted (map fst (sort_key fst ?K))" by (rule sorted_sort_key)
  show ?thesis
    by (rule sort_key_inj_key_eq [OF m i s])
qed

text \<open>
  Claim C1. For every directory, the checksum of the node that \<open>DirectoryNode.build_node\<close>
  returns is the xxh64 digest of the concatenation of the digests of its children, taken
  in ascending lexicographic order of the child names; so two listings of the same set of
  entries, in any two orders, give the same directory checksum.

  The statement is about the directory handed to the builder, whose directories list each
  name once. The build raises exactly when the process lacks an access the build asks
  for. Otherwise the children of the node are the entries the build keeps, each under
  its name and with its content digest as checksum, and the checksum of the node is the
  digest of these content digests, concatenated in ascending order of the names. A
  second listing that is a permutation of the first, built under any path and name,
  gives a node with the same checksum.
\<close>

theorem DirectoryNode_checksum_sorted:
  assumes "unique_names (Directory who mode listing)"
  shows "case snd (DirectoryNode_build_node H path who mode listing name) of
     Inl err \<Rightarrow> \<not> accessible (Directory who mode listing)
   | Inr node \<Rightarrow>
       accessible (Directory who mode listing)
       \<and> map (\<lambda>kv. (fst kv, node_name (snd kv), node_checksum (snd kv))) (node_children node)
           = map (\<lambda>ne. (PStr (fst ne), PStr (fst ne), PStr (content_digest H (snd ne))))
               (kept_entries who mode listing)
       \<and> node_checksum node
           = PStr (H (concat (map (\<lambda>ne. content_digest H (snd ne))
                               (sort_key fst (kept_entries who mode listing)))))
       \<and> (mset listing' = mset listing \<longrightarrow>
            (case snd (DirectoryNode_build_node H path' who mode listing' name') of
               Inl err \<Rightarrow> False
             | Inr node' \<Rightarrow> node_checksum node' = node_checksum node))"
proof (cases "accessible (Directory who mode listing)")
  case False
  with build_node_result(2) [where who = who and mode = mode and listing = listing
      and H = H and path = path and name = name]
  obtain out err where "DirectoryNode_build_node H path who mode listing name = (out, Inl err)"
    by blast
  with False show ?thesis by simp
next
  case True
  let ?K = "kept_entries who mode listing"
  from True build_node_result(2) [where who = who and mode = mode and listing = listing
      and H = H and path = path and name = name]
  obtain out ch
    where ok: "dict_ok ch"
      and d: "digests_of ch = children_digests H (may_search who mode) listing []"
      and b: "DirectoryNode_build_node H path who mode listing name
          = (out, Inr (DirectoryNode (PStr name) (PStr (digest_of H (Directory who mode listing)))
                         (PInt (int (S_IMODE mode))) (children_items ch)))"
    by blast
  from assms have dist: "distinct (map fst listing)"
    and u: "\<forall>ne\<in>set listing. unique_names (snd ne)"
    by (simp_all add: list_all_iff)
  have cd: "digest_of H (Directory who mode listing)
          = H (concat (map (\<lambda>ne. content_digest H (snd ne)) (sort_key fst ?K)))"
    using digest_of_content_digest [OF assms, of H] by simp
  from d digest_of_Directory_distinct(1) [OF dist, of H who mode]
  have "digests_of ch = map (\<lambda>ne. (fst ne, digest_of H (snd ne))) ?K"
    by simp
  from built_children [OF ok this]
  have "map (\<lambda>kv. (fst kv, node_name (snd kv), node_checksum (snd kv))) (children_items ch)
          = map (\<lambda>ne. (PStr (fst ne), PStr (fst ne), PStr (digest_of H (snd ne)))) ?K" .
  also have "\<dots> = map (\<lambda>ne. (PStr (fst ne), PStr (fst ne), PStr (content_digest H (snd ne)))) ?K"
  proof (rule map_cong [OF refl])
    fix ne assume "ne \<in> set ?K"
    then have "ne \<in> set listing"
      by (auto simp: kept_entries_def split: if_splits)
    with u have "unique_names (snd ne)" by simp
    then show "(PStr (fst ne), PStr (fst ne), PStr (digest_of H (snd ne)))
                 = (PStr (fst ne), PStr (fst ne), PStr (content_digest H (snd ne)))"
      by (simp add: digest_of_content_digest)
  qed
  finally have ch: "map (\<lambda>kv. (fst kv, node_name (snd kv), node_checksum (snd kv))) (children_items ch)
          = map (\<lambda>ne. (PStr (fst ne), PStr (fst ne), PStr (content_digest H (snd ne)))) ?K" .
  have p: "case snd (DirectoryNode_build_node H path' who mode listing' name') of
               Inl err \<Rightarrow> False
             | Inr node' \<Rightarrow>
                 node_checksum node'
                   = PStr (H (concat (map (\<lambda>ne. content_digest H (snd ne)) (sort_key fst ?K))))"
    if m: "mset listing' = mset listing"
  proof -
    from permuted_listing [OF m, of who mode] assms True
    have u': "unique_names (Directory who mode listing')"
      and a': "accessible (Directory who mode listing')"
      by simp_all
    from a' build_node_result(2) [where who = who and mode = mode and listing = listing'
      and H = H and path = path' and name = name']
    obtain out' ch'
      where b': "DirectoryNode_build_node H path' who mode listing' name'
          = (out', Inr (DirectoryNode (PStr name') (PStr (digest_of H (Directory who mode listing')))
                         (PInt (int (S_IMODE mode))) (children_items ch')))"
      by blast
    have "digest_of H (Directory who mode listing')
            = H (concat (map (\<lambda>ne. content_digest H (snd ne))
                           (sort_key fst (kept_entries who mode listing'))))"
      using digest_of_content_digest [OF u', of H] by simp
    also have "\<dots> = H (concat (map (\<lambda>ne. content_digest H (snd ne)) (sort_key fst ?K)))"
      by (simp only: content_digest_listing_order [OF dist m])
    finally have "digest_of H (Directory who mode listing')
            = H (concat (map (\<lambda>ne. content_digest H (snd ne)) (sort_key fst ?K)))" .
    with b' [unfolded this] show ?thesis
      by (simp del: digest_of.simps)
  qed
  from True b [unfolded cd] ch p show ?thesis
    by (auto simp del: accessible.simps split: sum.splits)
qed

theorem DirectoryNode_checksum_sorted_witness:
  "unique_names (Directory Owner 493
      [(''b'', RegularFile Owner 420 ''x''), (''a'', Symlink 511 ''b'' ToFile)])
   \<and> mset [(''a'', Symlink 511 ''b'' ToFile), (''b'', RegularFile Owner 420 ''x'')]
       = mset [(''b'', RegularFile Owner 420 ''x''), (''a'', Symlink 511 ''b'' ToFile)]
   \<and> snd (DirectoryNode_build_node (\<lambda>s. ''<'' @ s @ ''>'') ''/r'' Owner 493
             [(''b'', RegularFile Owner 420 ''x''), (''a'', Symlink 511 ''b'' ToFile)] '''')
       = Inr (DirectoryNode (PStr '''') (PStr ''<<b><x>>'') (PInt 493)
                [(PStr ''b'', FileNode (PStr ''b'') (PStr ''<x>'') (PInt 420)),
                 (PStr ''a'', SymlinkNode (PStr ''a'') (PStr ''<b>'') (PInt 511))])
   \<and> (case snd (DirectoryNode_build_node (\<lambda>s. ''<'' @ s @ ''>'') ''/s'' Owner 493
                   [(''a'', Symlink 511 ''b'' ToFile), (''b'', RegularFile Owner 420 ''x'')] ''d'') of
          Inl err \<Rightarrow> False
        | Inr node' \<Rightarrow> node_checksum node' = PStr ''<<b><x>>'')"
proof -
  let ?H = "\<lambda>s. ''<'' @ s @ ''>''"
  let ?l = "[(''b'', RegularFile Owner 420 ''x''), (''a'', Symlink 511 ''b'' ToFile)]"
  let ?l' = "[(''a'', Symlink 511 ''b'' ToFile), (''b'', RegularFile Owner 420 ''x'')]"
  have h1: "unique_names (Directory Owner 493 ?l)" by simp
  have h2: "mset ?l' = mset ?l" by simp
  have u: "valid_utf8 ''b''" by (rule valid_utf8_ascii) simp
  have v: "snd (DirectoryNode_build_node ?H ''/r'' Owner 493 ?l '''')
       = Inr (DirectoryNode (PStr '''') (PStr ''<<b><x>>'') (PInt 493)
                [(PStr ''b'', FileNode (PStr ''b'') (PStr ''<x>'') (PInt 420)),
                 (PStr ''a'', SymlinkNode (PStr ''a'') (PStr ''<b>'') (PInt 511))])"
    using u
    by (simp add: DirectoryNode_build_node.simps TreeNode_build_node.simps
          FileNode_build_node_RegularFile SymlinkNode_build_node_Symlink os_path_join_def
          dict_setitem_def directory_checksum_def S_IMODE_def xxh64_new_def xxh64_update_def
          hexdigest_def may_read_def may_search_def child_isfile_def child_isdir_def
          del: valid_utf8.simps)
  note t = DirectoryNode_checksum_sorted
         [OF h1, where H = ?H and path = "''/r''" and name = "''''"
            and path' = "''/s''" and listing' = ?l' and name' = "''d''",
          unfolded v sum.case node_checksum.simps]
  from t [THEN conjunct2, THEN conjunct2, THEN conjunct2, THEN mp, OF h2]
  have "case snd (DirectoryNode_build_node ?H ''/s'' Owner 493 ?l' ''d'') of
          Inl err \<Rightarrow> False
        | Inr node' \<Rightarrow> node_checksum node' = PStr ''<<b><x>>''" .
  with h1 h2 v show ?thesis by (simp only: simp_thms)
qed

section \<open>Checksums and permissions\<close>











lemma superuser_only_strip_modes: "superuser_only (strip_modes e) = superuser_only e"
  by (induction e rule: strip_modes.induct) (simp_all add: list_all_iff)

lemma superuser_access_view:
  "superuser_only e \<Longrightarrow> access_view (strip_modes e) = access_view e"
  by (induction e rule: strip_modes.induct)
     (simp_all add: list_all_iff may_read_def may_search_def)

text \<open>
  For the superuser no mode takes an access away: two trees that differ in their modes
  only give it the same access.
\<close>

lemma superuser_same_access:
  assumes "superuser_only e1" and "strip_modes e1 = strip_modes e2"
  shows "access_view e1 = access_view e2"
proof -
  from assms superuser_only_strip_modes [of e1] superuser_only_strip_modes [of e2]
  have "superuser_only e2" by simp
  with assms superuser_access_view [of e1] superuser_access_view [of e2]
  show ?thesis by simp
qed

section \<open>Further facts about the builder, the parser and the constructor\<close>

text \<open>
  Every node the builder returns has the shape of the data model: in each directory the
  keys are strings, pairwise different, and each is the name of its child.
\<close>

lemma build_node_well_formed:
  "TreeNode_build_node H path e name = (out, Inr (Some node)) \<Longrightarrow>
     wf_node node \<and> str_keys node \<and> node_name node = PStr name"
  using build_node_result(1) [where H = H and path = path and e = e and name = name]
  by (cases "accessible e") (auto simp: built_from_def)

text \<open>
  In general an unknown discriminator always ends the parse with an exception, and the
  exception depends on \<open>d['name']\<close> alone.
\<close>

lemma TreeNode_from_dict_unknown_type:
  assumes "getitem d ''type'' = Inr t"
    and "t \<noteq> PStr ''directory''" and "t \<noteq> PStr ''file''" and "t \<noteq> PStr ''symlink''"
  shows "TreeNode_from_dict d =
           (case getitem d ''name'' of
              Inl e \<Rightarrow> Inl e
            | Inr n \<Rightarrow> (case str_add ''Type '' n of
                          Inl e \<Rightarrow> Inl e
                        | Inr msg \<Rightarrow> Inl (TypeError (msg @ '' does not exist.''))))"
  using assms by (simp add: TreeNode_from_dict.simps)

text \<open>The constructor of a checkpoint succeeds exactly when the assertion holds.\<close>

lemma Checkpoint_init_ok_iff:
  "(\<exists>c. Checkpoint_init root time name now = Inr c) \<longleftrightarrow> name = None \<or> re_match_name (the name)"
  by (simp add: Checkpoint_init_def)

text \<open>
  An entry that is neither a file nor a directory for \<open>os.path\<close>, links followed, is
  reported and left out, and the loop goes on with the rest of the listing; so is every
  entry of a directory the process may not search. A link that resolves to a file or to
  a directory becomes a \<open>SymlinkNode\<close> and is not followed.
\<close>

lemma build_children_skips:
  "\<not> search \<or> \<not> isfile child \<and> \<not> isdir child \<Longrightarrow>
     build_children H path search ((child_name, child) # listing) children
       = ((''Ignored: '' @ os_path_join path child_name)
            # fst (build_children H path search listing children),
          snd (build_children H path search listing children))"
  by (auto simp: Let_def child_isfile_def child_isdir_def split: prod.splits)

lemma TreeNode_build_node_Symlink:
  "valid_utf8 target \<Longrightarrow>
     TreeNode_build_node H path (Symlink mode target resolves) name
       = ([], Inr (Some (SymlinkNode (PStr name) (PStr (H target)) (PInt (int (S_IMODE mode))))))"
  by (simp add: TreeNode_build_node.simps SymlinkNode_build_node_Symlink)

end
